theory Spec2Isabelle
  imports Main "HOL-Library.Char_ord" "HOL-Library.Sublist"
begin

section \<open>dumbdown.js: rewriting plain SQL into Salesforce Smart SQL\<close>

text \<open>
  The library \<^verbatim>\<open>src/dumbdown.js\<close> rewrites a query string clause by clause with
  regular expressions and string operations. This theory embeds it function by
  function. A JavaScript string is a sequence of UTF-16 code units; the embedding covers
  the strings whose code units are below 256 (Latin-1), one \<^typ>\<open>char\<close> per code unit.
  A thrown \<^verbatim>\<open>TypeError\<close> is the value \<open>Inl TypeError\<close>; the JavaScript value
  \<^verbatim>\<open>undefined\<close> is \<open>None\<close> and \<^verbatim>\<open>null\<close> (a failed match) is \<open>None\<close> as well.
\<close>

subsection \<open>Values and errors\<close>

datatype error = TypeError

text \<open>String conversion inside a template literal or a property key:
  \<^verbatim>\<open>`${undefined}`\<close> is the text \<^verbatim>\<open>undefined\<close>.\<close>

fun str :: "string option \<Rightarrow> string" where
  "str None = ''undefined''"
| "str (Some s) = s"

text \<open>Array indexing \<^verbatim>\<open>xs[i]\<close>: \<^verbatim>\<open>undefined\<close> out of range.\<close>

fun at :: "'a list \<Rightarrow> nat \<Rightarrow> 'a option" where
  "at [] i = None"
| "at (x # xs) 0 = Some x"
| "at (x # xs) (Suc i) = at xs i"

subsection \<open>String primitives of the JavaScript runtime\<close>

text \<open>The regular expression class \<^verbatim>\<open>\s\<close> on code units below 256: tab, line
  feed, vertical tab, form feed, carriage return, space and the no-break space.\<close>

definition isWhiteSpace :: "char \<Rightarrow> bool" where
  "isWhiteSpace c =
     (c = CHR 0x09 \<or> c = CHR 0x0A \<or> c = CHR 0x0B \<or> c = CHR 0x0C \<or> c = CHR 0x0D
      \<or> c = CHR '' '' \<or> c = CHR 0xA0)"

text \<open>The regular expression atom \<^verbatim>\<open>.\<close> (no \<^verbatim>\<open>s\<close> flag) matches every code
  unit but a line terminator; below 256 these are line feed and carriage return.\<close>

definition isLineTerminator :: "char \<Rightarrow> bool" where
  "isLineTerminator c = (c = CHR 0x0A \<or> c = CHR 0x0D)"

text \<open>\<^verbatim>\<open>s.replace(/\s/g, '')\<close>\<close>

definition stripWhitespace :: "string \<Rightarrow> string" where
  "stripWhitespace s = filter (\<lambda>c. \<not> isWhiteSpace c) s"

text \<open>\<^verbatim>\<open>s.startsWith(p)\<close>\<close>

fun startsWith :: "string \<Rightarrow> string \<Rightarrow> bool" where
  "startsWith s [] = True"
| "startsWith [] (p # ps) = False"
| "startsWith (c # cs) (p # ps) = (c = p \<and> startsWith cs ps)"

text \<open>\<^verbatim>\<open>s.indexOf(p)\<close>: the index of the first occurrence of \<open>p\<close>, or \<open>-1\<close>.\<close>

fun indexFrom :: "int \<Rightarrow> string \<Rightarrow> string \<Rightarrow> int" where
  "indexFrom i [] p = (if p = [] then i else -1)"
| "indexFrom i (c # cs) p = (if startsWith (c # cs) p then i else indexFrom (i + 1) cs p)"

definition indexOf :: "string \<Rightarrow> string \<Rightarrow> int" where
  "indexOf s p = indexFrom 0 s p"

text \<open>\<^verbatim>\<open>s.split(sep)\<close> for a string separator: the pieces between the occurrences
  of \<open>sep\<close>, found from the left; the empty string splits into one empty piece. With the
  empty separator the string splits into its code units.\<close>

fun splitAcc :: "string \<Rightarrow> string \<Rightarrow> string \<Rightarrow> string list" where
  "splitAcc sep acc [] = [acc]"
| "splitAcc sep acc (c # cs) =
     (if startsWith (c # cs) sep
      then acc # splitAcc sep [] (drop (length sep - 1) cs)
      else splitAcc sep (acc @ [c]) cs)"

definition split :: "string \<Rightarrow> string \<Rightarrow> string list" where
  "split s sep = (if sep = [] then map (\<lambda>c. [c]) s else splitAcc sep [] s)"

text \<open>\<^verbatim>\<open>s.toLowerCase()\<close> on code units below 256: the letters A to Z (65 to 90)
  and the Latin-1 capitals 0xC0 to 0xDE (192 to 222, but the multiplication sign 215) move
  up by 32; every other code unit stays.\<close>

definition toLowerChar :: "char \<Rightarrow> char" where
  "toLowerChar c =
     (if (65 \<le> (of_char c :: nat) \<and> (of_char c :: nat) \<le> 90)
         \<or> (192 \<le> (of_char c :: nat) \<and> (of_char c :: nat) \<le> 222 \<and> (of_char c :: nat) \<noteq> 215)
      then char_of ((of_char c :: nat) + 32) else c)"

definition toLowerCase :: "string \<Rightarrow> string" where
  "toLowerCase s = map toLowerChar s"

text \<open>\<^verbatim>\<open>s.replace(pattern, replacement)\<close> with a string pattern replaces the first
  occurrence of the pattern. In the replacement text \<^verbatim>\<open>$$\<close> stands for a dollar
  sign, \<^verbatim>\<open>$&\<close> for the matched text, \<^verbatim>\<open>$`\<close> for the text before the match and
  \<^verbatim>\<open>$'\<close> for the text after it; there are no capture groups, so every other
  dollar sign is literal.\<close>

fun getSubstitution :: "string \<Rightarrow> string \<Rightarrow> string \<Rightarrow> string \<Rightarrow> string" where
  "getSubstitution matched preceding following [] = []"
| "getSubstitution matched preceding following [c] = [c]"
| "getSubstitution matched preceding following (c # d # r) =
     (if c = CHR ''$'' \<and> d = CHR ''$'' then CHR ''$'' # getSubstitution matched preceding following r
      else if c = CHR ''$'' \<and> d = CHR ''&'' then matched @ getSubstitution matched preceding following r
      else if c = CHR ''$'' \<and> d = CHR 0x60 then preceding @ getSubstitution matched preceding following r
      else if c = CHR ''$'' \<and> d = CHR 0x27 then following @ getSubstitution matched preceding following r
      else c # getSubstitution matched preceding following (d # r))"

definition replace :: "string \<Rightarrow> string \<Rightarrow> string \<Rightarrow> string" where
  "replace s pat repl =
     (if indexOf s pat < 0 then s
      else take (nat (indexOf s pat)) s
           @ getSubstitution pat (take (nat (indexOf s pat)) s)
               (drop (nat (indexOf s pat) + length pat) s) repl
           @ drop (nat (indexOf s pat) + length pat) s)"

subsection \<open>The regular expressions of the program\<close>

text \<open>
  Every regular expression literal of \<^verbatim>\<open>dumbdown.js\<close> but \<^verbatim>\<open>/\s/g\<close> and
  \<^verbatim>\<open>/[^\s]+/\<close> has the shape
  \<^verbatim>\<open>(k1|k2|...)(.+)(?=a1|a2|...)\<close> with the flag \<^verbatim>\<open>i\<close>: a group of alternative
  keywords (capturing or not), one or more characters (greedy \<^verbatim>\<open>.+\<close> or lazy
  \<^verbatim>\<open>.+?\<close>, always captured) and an optional lookahead of alternatives. An
  alternative is a keyword or the anchor \<^verbatim>\<open>$\<close> (end of input, no \<^verbatim>\<open>m\<close> flag).
\<close>

datatype alt = Keyword string | EndOfInput

datatype regex =
  Regex (lead: "alt list") (leadCaptures: bool) (lazy: bool) (ahead: "alt list option")

text \<open>Case-insensitive comparison of a pattern character with an input character
  (flag \<^verbatim>\<open>i\<close>, no \<^verbatim>\<open>u\<close> flag): both are canonicalised by upper-casing, and a
  character from 128 on is never identified with one below 128. The patterns of the
  program hold only the letters A to Z and the space, so only the canonical form of the
  characters below 128 matters: a letter a to z (97 to 122) moves down by 32, every other
  character is its own canonical form.\<close>

definition canonicalize :: "char \<Rightarrow> char" where
  "canonicalize c =
     (if 97 \<le> (of_char c :: nat) \<and> (of_char c :: nat) \<le> 122
      then char_of ((of_char c :: nat) - 32) else c)"

fun matchesKeyword :: "string \<Rightarrow> string \<Rightarrow> bool" where
  "matchesKeyword [] s = True"
| "matchesKeyword (p # ps) [] = False"
| "matchesKeyword (p # ps) (c # cs) =
     (canonicalize c = canonicalize p \<and> matchesKeyword ps cs)"

text \<open>One alternative at the start of \<open>s\<close>: the number of characters it consumes.\<close>

fun matchAlt :: "alt \<Rightarrow> string \<Rightarrow> nat option" where
  "matchAlt (Keyword k) s = (if matchesKeyword k s then Some (length k) else None)"
| "matchAlt EndOfInput s = (if s = [] then Some 0 else None)"

fun anyAlt :: "alt list \<Rightarrow> string \<Rightarrow> bool" where
  "anyAlt [] s = False"
| "anyAlt (a # as) s = (if matchAlt a s \<noteq> None then True else anyAlt as s)"

text \<open>The lookahead \<^verbatim>\<open>(?=...)\<close> at the start of \<open>s\<close>; an absent lookahead holds.\<close>

fun lookahead :: "alt list option \<Rightarrow> string \<Rightarrow> bool" where
  "lookahead None s = True"
| "lookahead (Some as) s = anyAlt as s"

text \<open>Lazy \<^verbatim>\<open>.+?\<close> followed by the lookahead: take one character, then stop as soon
  as the lookahead holds. The result is the captured text (\<open>acc\<close> is what has been
  taken so far).\<close>

fun lazyDots :: "alt list option \<Rightarrow> string \<Rightarrow> string \<Rightarrow> string option" where
  "lazyDots la acc [] = None"
| "lazyDots la acc (c # cs) =
     (if isLineTerminator c then None
      else if lookahead la cs then Some (acc @ [c])
      else lazyDots la (acc @ [c]) cs)"

text \<open>Greedy \<^verbatim>\<open>.+\<close> followed by the lookahead: take as many characters as
  possible, then give them back one by one until the lookahead holds.\<close>

fun greedyDots :: "alt list option \<Rightarrow> string \<Rightarrow> string \<Rightarrow> string option" where
  "greedyDots la acc [] = None"
| "greedyDots la acc (c # cs) =
     (if isLineTerminator c then None
      else (case greedyDots la (acc @ [c]) cs of
              Some d \<Rightarrow> Some d
            | None \<Rightarrow> if lookahead la cs then Some (acc @ [c]) else None))"

definition dots :: "regex \<Rightarrow> string \<Rightarrow> string option" where
  "dots re s = (if lazy re then lazyDots (ahead re) [] s else greedyDots (ahead re) [] s)"

text \<open>A match that starts at the start of \<open>s\<close>: the alternatives of the leading group
  are tried in order, and one whose continuation fails is abandoned for the next. The
  result is the text of the leading group and the text of the dots.\<close>

fun matchLead :: "regex \<Rightarrow> alt list \<Rightarrow> string \<Rightarrow> (string \<times> string) option" where
  "matchLead re [] s = None"
| "matchLead re (a # as) s =
     (case matchAlt a s of
        None \<Rightarrow> matchLead re as s
      | Some n \<Rightarrow>
          (case dots re (drop n s) of
             None \<Rightarrow> matchLead re as s
           | Some d \<Rightarrow> Some (take n s, d)))"

definition matchHere :: "regex \<Rightarrow> string \<Rightarrow> (string \<times> string) option" where
  "matchHere re s = matchLead re (lead re) s"

text \<open>The leftmost match: every start position is tried from the left, the end of
  the input included.\<close>

fun search :: "regex \<Rightarrow> string \<Rightarrow> (string \<times> string) option" where
  "search re [] = matchHere re []"
| "search re (c # cs) =
     (case matchHere re (c # cs) of
        Some m \<Rightarrow> Some m
      | None \<Rightarrow> search re cs)"

text \<open>\<^verbatim>\<open>s.match(re)\<close> without the flag \<^verbatim>\<open>g\<close>: \<^verbatim>\<open>null\<close>, or the array of the
  whole match and the captured groups.\<close>

definition match :: "string \<Rightarrow> regex \<Rightarrow> string list option" where
  "match s re =
     (case search re s of
        None \<Rightarrow> None
      | Some (k, d) \<Rightarrow> Some ((k @ d) # (if leadCaptures re then [k, d] else [d])))"

text \<open>\<^verbatim>\<open>s.match(re)\<close> with the flag \<^verbatim>\<open>g\<close>: the texts of all matches, each search
  starting where the last match ended, or \<^verbatim>\<open>null\<close> when there is none. A match
  holds at least one character (the dots), so the search always advances and no match
  starts at the end of the input.\<close>

fun matchesFrom :: "regex \<Rightarrow> string \<Rightarrow> string list" where
  "matchesFrom re [] = []"
| "matchesFrom re (c # cs) =
     (case matchHere re (c # cs) of
        None \<Rightarrow> matchesFrom re cs
      | Some (k, d) \<Rightarrow> (k @ d) # matchesFrom re (drop (length (k @ d) - 1) cs))"

definition matchGlobal :: "string \<Rightarrow> regex \<Rightarrow> string list option" where
  "matchGlobal s re = (case matchesFrom re s of [] \<Rightarrow> None | m # ms \<Rightarrow> Some (m # ms))"

text \<open>\<^verbatim>\<open>s.match(/[^\s]+/)\<close>: the first maximal run of characters that are not
  white space, \<^verbatim>\<open>null\<close> when there is none.\<close>

definition matchNonSpace :: "string \<Rightarrow> string list option" where
  "matchNonSpace s =
     (if dropWhile isWhiteSpace s = [] then None
      else Some [takeWhile (\<lambda>c. \<not> isWhiteSpace c) (dropWhile isWhiteSpace s)])"

text \<open>The regular expression literals, in the order of their first use.\<close>

definition qualifierKeywords :: "alt list" where
  "qualifierKeywords =
     [Keyword ''WHERE'', Keyword ''GROUP BY'', Keyword ''ORDER BY'', Keyword ''LIMIT'', EndOfInput]"

text \<open>\<^verbatim>\<open>/(SELECT)(.+?)(?=FROM)/i\<close>\<close>

definition selectRegex :: regex where
  "selectRegex = Regex [Keyword ''SELECT''] True True (Some [Keyword ''FROM''])"

text \<open>\<^verbatim>\<open>/(FROM)(.+?)(?=WHERE|GROUP BY|ORDER BY|LIMIT|$)/i\<close>\<close>

definition fromRegex :: regex where
  "fromRegex = Regex [Keyword ''FROM''] True True (Some qualifierKeywords)"

text \<open>\<^verbatim>\<open>/(?:WHERE)(.+)/i\<close>\<close>

definition whereRegex :: regex where
  "whereRegex = Regex [Keyword ''WHERE''] False False None"

text \<open>\<^verbatim>\<open>/(?:GROUP BY)(.+)/i\<close>\<close>

definition groupByRegex :: regex where
  "groupByRegex = Regex [Keyword ''GROUP BY''] False False None"

text \<open>\<^verbatim>\<open>/(?:ORDER BY)(.+)(?=DESC|ASC)/i\<close>\<close>

definition orderByRegex :: regex where
  "orderByRegex = Regex [Keyword ''ORDER BY''] False False (Some [Keyword ''DESC'', Keyword ''ASC''])"

text \<open>\<^verbatim>\<open>/(WHERE|GROUP BY|ORDER BY|LIMIT|$)(.+?)(?=WHERE|GROUP BY|ORDER BY|LIMIT|$)/ig\<close>\<close>

definition qualifierRegex :: regex where
  "qualifierRegex = Regex qualifierKeywords True True (Some qualifierKeywords)"

subsection \<open>The field map\<close>

text \<open>
  \<^verbatim>\<open>fieldMaps\<close> is imported from \<^verbatim>\<open>../init/tables\<close>, which is not part of the
  sources; it is a parameter of every function that reads it. It is an object of
  objects of strings, \<^verbatim>\<open>{table: {genericField: vendorField}}\<close>. Its own entries are
  a list of entries read with \<^const>\<open>map_of\<close>.

  A property read \<^verbatim>\<open>obj[name]\<close> that finds no own entry goes on to the members
  the object inherits. What the objects of the field map inherit is the second part of
  the parameter, a \<open>proto\<close>: the names of the inherited members, the text each of them
  gives in a template literal, the outcome of \<^verbatim>\<open>`${obj[name][field]}`\<close> for an
  inherited member (a text or a throw) and the names \<^verbatim>\<open>_.keys(obj[name])\<close> lists for
  it. The field map and its tables are taken to be objects of one kind.
\<close>

type_synonym fieldmap = "(string \<times> (string \<times> string) list) list"

datatype proto =
  Proto (inheritedNames: "string list") (memberText: "string \<Rightarrow> string")
    (memberRead: "string \<Rightarrow> string \<Rightarrow> error + string")
    (memberKeys: "string \<Rightarrow> string list")

text \<open>An object literal inherits the members of \<^verbatim>\<open>Object.prototype\<close>. Their names
  are fixed by the language; what they print and hold is left to the engine and stays a
  parameter.\<close>

definition objectPrototype ::
  "(string \<Rightarrow> string) \<Rightarrow> (string \<Rightarrow> string \<Rightarrow> error + string)
     \<Rightarrow> (string \<Rightarrow> string list) \<Rightarrow> proto" where
  "objectPrototype mt mr mk =
     Proto [''constructor'', ''hasOwnProperty'', ''isPrototypeOf'', ''propertyIsEnumerable'',
            ''toLocaleString'', ''toString'', ''valueOf'', ''__proto__'',
            ''__defineGetter__'', ''__defineSetter__'', ''__lookupGetter__'',
            ''__lookupSetter__'']
       mt mr mk"

text \<open>The text of \<^verbatim>\<open>`${fieldMaps[table][field]}`\<close> (lines 139, 141 and 229): an own
  entry first, then an inherited member, else \<^verbatim>\<open>undefined\<close>; reading a property of
  \<^verbatim>\<open>undefined\<close> (a table that is neither an entry nor inherited) throws.\<close>

definition vendorField :: "proto \<Rightarrow> fieldmap \<Rightarrow> string \<Rightarrow> string \<Rightarrow> error + string" where
  "vendorField proto fieldMaps table field =
     (case map_of fieldMaps table of
        Some m \<Rightarrow>
          (case map_of m field of
             Some v \<Rightarrow> Inr v
           | None \<Rightarrow>
               if field \<in> set (inheritedNames proto) then Inr (memberText proto field)
               else Inr ''undefined'')
      | None \<Rightarrow>
          if table \<in> set (inheritedNames proto) then memberRead proto table field
          else Inl TypeError)"

text \<open>\<^verbatim>\<open>_.keys(fieldMaps[table])\<close> of underscore (line 222): the names of the own
  entries, none for \<^verbatim>\<open>undefined\<close>.\<close>

definition keys :: "proto \<Rightarrow> fieldmap \<Rightarrow> string \<Rightarrow> string list" where
  "keys proto fieldMaps table =
     (case map_of fieldMaps table of
        Some m \<Rightarrow> map fst m
      | None \<Rightarrow> if table \<in> set (inheritedNames proto) then memberKeys proto table else [])"

subsection \<open>The functions of dumbdown.js\<close>

text \<open>\<^verbatim>\<open>splitFields\<close> (line 126)\<close>

definition splitFields :: "string \<Rightarrow> regex \<Rightarrow> nat \<Rightarrow> error + string list" where
  "splitFields queryString re returnIdx =
     (case match queryString re of
        None \<Rightarrow> Inl TypeError
      | Some groups \<Rightarrow>
          (case at groups returnIdx of
             None \<Rightarrow> Inl TypeError
           | Some g \<Rightarrow> Inr (split (stripWhitespace g) '','')))"

text \<open>\<^verbatim>\<open>dumbifyField\<close> (lines 135 to 142)\<close>

definition dumbifyField :: "proto \<Rightarrow> fieldmap \<Rightarrow> string \<Rightarrow> string list \<Rightarrow> error + string" where
  "dumbifyField proto fieldMaps field tables =
     (if indexOf field ''.'' > -1 then
        (case vendorField proto fieldMaps (str (at (split field ''.'') 0))
                (str (at (split field ''.'') 1)) of
           Inl e \<Rightarrow> Inl e
         | Inr v \<Rightarrow> Inr (''{'' @ str (at (split field ''.'') 0) @ '':'' @ v @ ''}''))
      else
        (case vendorField proto fieldMaps (str (at tables 0)) field of
           Inl e \<Rightarrow> Inl e
         | Inr v \<Rightarrow> Inr (''{'' @ str (at tables 0) @ '':'' @ v @ ''}'')))"

text \<open>\<^verbatim>\<open>commafy\<close> (line 148)\<close>

definition commafy :: "string \<Rightarrow> string \<Rightarrow> string" where
  "commafy wholeWrapped wrapped =
     (if length wholeWrapped = 0 then wrapped else wholeWrapped @ '', '' @ wrapped)"

text \<open>\<^verbatim>\<open>wrapSelects\<close> (lines 154 to 164); \<open>eachSelect\<close> is its loop over the
  fields, with \<open>wrappedSelects\<close> as the state.\<close>

fun eachSelect ::
  "proto \<Rightarrow> fieldmap \<Rightarrow> string list \<Rightarrow> string \<Rightarrow> string list \<Rightarrow> error + string" where
  "eachSelect proto fieldMaps tableList wrappedSelects [] = Inr wrappedSelects"
| "eachSelect proto fieldMaps tableList wrappedSelects (field # fields) =
     (if indexOf field ''*'' > -1
      then eachSelect proto fieldMaps tableList (commafy wrappedSelects field) fields
      else (case dumbifyField proto fieldMaps field tableList of
              Inl e \<Rightarrow> Inl e
            | Inr wrapped \<Rightarrow>
                eachSelect proto fieldMaps tableList (commafy wrappedSelects wrapped) fields))"

definition wrapSelects :: "proto \<Rightarrow> fieldmap \<Rightarrow> string \<Rightarrow> error + string" where
  "wrapSelects proto fieldMaps queryString =
     (case splitFields queryString selectRegex 2 of
        Inl e \<Rightarrow> Inl e
      | Inr selectFields \<Rightarrow>
          (case splitFields queryString fromRegex 2 of
             Inl e \<Rightarrow> Inl e
           | Inr tableList \<Rightarrow>
               (case eachSelect proto fieldMaps tableList [] selectFields of
                  Inl e \<Rightarrow> Inl e
                | Inr wrappedSelects \<Rightarrow> Inr (''SELECT '' @ wrappedSelects @ '' ''))))"

text \<open>\<^verbatim>\<open>wrapFrom\<close> (lines 170 to 177)\<close>

fun eachFrom :: "string \<Rightarrow> string list \<Rightarrow> string" where
  "eachFrom wrappedFrom [] = wrappedFrom"
| "eachFrom wrappedFrom (table # tables) =
     eachFrom (commafy wrappedFrom (''{'' @ table @ ''}'')) tables"

definition wrapFrom :: "string \<Rightarrow> error + string" where
  "wrapFrom queryString =
     (case splitFields queryString fromRegex 2 of
        Inl e \<Rightarrow> Inl e
      | Inr tables \<Rightarrow> Inr ('' FROM '' @ eachFrom [] tables @ '' ''))"

text \<open>\<^verbatim>\<open>wrapSimpleList\<close> (lines 183 to 192)\<close>

fun eachField ::
  "proto \<Rightarrow> fieldmap \<Rightarrow> string list \<Rightarrow> string \<Rightarrow> string list \<Rightarrow> error + string" where
  "eachField proto fieldMaps tableList wrappedFields [] = Inr wrappedFields"
| "eachField proto fieldMaps tableList wrappedFields (field # fields) =
     (case dumbifyField proto fieldMaps field tableList of
        Inl e \<Rightarrow> Inl e
      | Inr wrapped \<Rightarrow> eachField proto fieldMaps tableList (commafy wrappedFields wrapped) fields)"

definition wrapSimpleList ::
  "proto \<Rightarrow> fieldmap \<Rightarrow> string \<Rightarrow> regex \<Rightarrow> string \<Rightarrow> error + string" where
  "wrapSimpleList proto fieldMaps clause re queryString =
     (case splitFields clause re 1 of
        Inl e \<Rightarrow> Inl e
      | Inr fields \<Rightarrow>
          (case splitFields queryString fromRegex 2 of
             Inl e \<Rightarrow> Inl e
           | Inr tableList \<Rightarrow> eachField proto fieldMaps tableList [] fields))"

text \<open>\<^verbatim>\<open>wrapWhere\<close> (lines 198 to 243). \<open>smallerClauses\<close> is line 199.
  \<open>containsAny\<close> is the loop that raises the flag \<^verbatim>\<open>isTable\<close> (lines 211 to 216)
  or \<^verbatim>\<open>isField\<close> (lines 221 to 226). \<open>equalityExpression\<close> is the value of
  \<^verbatim>\<open>expression\<close> built for a clause with an equals sign (lines 204 to 234),
  \<open>bareFragment\<close> the value of \<^verbatim>\<open>stripped\<close> for a clause without one (lines 237
  and 238), and \<open>eachClause\<close> the loop over the clauses with their index.\<close>

definition smallerClauses :: "string \<Rightarrow> error + string list" where
  "smallerClauses whereClause =
     (case match whereClause whereRegex of
        None \<Rightarrow> Inl TypeError
      | Some groups \<Rightarrow>
          (case at groups 1 of
             None \<Rightarrow> Inl TypeError
           | Some g \<Rightarrow> Inr (split g ''AND'')))"

fun containsAny :: "string \<Rightarrow> bool \<Rightarrow> string list \<Rightarrow> bool" where
  "containsAny right flag [] = flag"
| "containsAny right flag (t # ts) =
     containsAny right (if indexOf right t > -1 then True else flag) ts"

definition equalityExpression ::
  "proto \<Rightarrow> fieldmap \<Rightarrow> string list \<Rightarrow> string \<Rightarrow> error + string" where
  "equalityExpression proto fieldMaps tableList clause =
     (case at (split (stripWhitespace clause) ''='') 0 of
        None \<Rightarrow> Inl TypeError
      | Some left \<Rightarrow>
     (case dumbifyField proto fieldMaps left tableList of
        Inl e \<Rightarrow> Inl e
      | Inr expression \<Rightarrow>
     (case at (split (stripWhitespace clause) ''='') 1 of
        None \<Rightarrow> Inl TypeError
      | Some right \<Rightarrow>
          if indexOf right [CHR 0x27] > -1 then Inr (expression @ '' = '' @ right)
          else if containsAny right False tableList then
            (case dumbifyField proto fieldMaps right tableList of
               Inl e \<Rightarrow> Inl e
             | Inr r \<Rightarrow> Inr (expression @ '' = '' @ r))
          else if containsAny right False (keys proto fieldMaps (str (at tableList 0))) then
            (case vendorField proto fieldMaps (str (at tableList 0)) right of
               Inl e \<Rightarrow> Inl e
             | Inr v \<Rightarrow>
                 Inr (expression @ '' = {'' @ str (at tableList 0) @ '':'' @ v @ ''}''))
          else Inr (expression @ '' = '' @ right))))"

definition bareFragment ::
  "proto \<Rightarrow> fieldmap \<Rightarrow> string list \<Rightarrow> string \<Rightarrow> error + string" where
  "bareFragment proto fieldMaps tableList clause =
     (case matchNonSpace clause of
        None \<Rightarrow> Inl TypeError
      | Some m \<Rightarrow>
          (case at m 0 of
             None \<Rightarrow> Inl TypeError
           | Some word \<Rightarrow>
               (case dumbifyField proto fieldMaps word tableList of
                  Inl e \<Rightarrow> Inl e
                | Inr wrapped \<Rightarrow> Inr (replace clause word wrapped))))"

fun eachClause ::
  "proto \<Rightarrow> fieldmap \<Rightarrow> string list \<Rightarrow> string \<Rightarrow> nat \<Rightarrow> string list \<Rightarrow> error + string" where
  "eachClause proto fieldMaps tableList wrappedWhere index [] = Inr wrappedWhere"
| "eachClause proto fieldMaps tableList wrappedWhere index (clause # clauses) =
     (case (if indexOf clause ''='' > -1
            then equalityExpression proto fieldMaps tableList clause
            else bareFragment proto fieldMaps tableList clause) of
        Inl e \<Rightarrow> Inl e
      | Inr expression \<Rightarrow>
          eachClause proto fieldMaps tableList
            (if index = 0 then expression else wrappedWhere @ '' AND '' @ expression @ '' '')
            (Suc index) clauses)"

definition wrapWhere :: "proto \<Rightarrow> fieldmap \<Rightarrow> string \<Rightarrow> string \<Rightarrow> error + string" where
  "wrapWhere proto fieldMaps whereClause queryString =
     (case smallerClauses whereClause of
        Inl e \<Rightarrow> Inl e
      | Inr clauses \<Rightarrow>
          (case splitFields queryString fromRegex 2 of
             Inl e \<Rightarrow> Inl e
           | Inr tableList \<Rightarrow> eachClause proto fieldMaps tableList [] 0 clauses))"

text \<open>\<^verbatim>\<open>wrapQualifiers\<close> (lines 249 to 271); \<open>eachQualifier\<close> is its loop over
  the clauses and \<open>orderDirection\<close> the text that lines 260 to 264 append after an
  ORDER BY clause. Iterating over \<^verbatim>\<open>null\<close> (no clause found) does nothing.\<close>

definition orderDirection :: "string \<Rightarrow> string" where
  "orderDirection clause =
     (if indexOf (toLowerCase clause) ''asc'' > -1 then '' ASC''
      else if indexOf (toLowerCase clause) ''desc'' > -1 then '' DESC''
      else [])"

fun eachQualifier ::
  "proto \<Rightarrow> fieldmap \<Rightarrow> string \<Rightarrow> string \<Rightarrow> string list \<Rightarrow> error + string" where
  "eachQualifier proto fieldMaps queryString wrappedQualifiers [] = Inr wrappedQualifiers"
| "eachQualifier proto fieldMaps queryString wrappedQualifiers (clause # clauses) =
     (if startsWith (toLowerCase clause) ''where'' then
        (case wrapWhere proto fieldMaps clause queryString of
           Inl e \<Rightarrow> Inl e
         | Inr w \<Rightarrow>
             eachQualifier proto fieldMaps queryString
               (wrappedQualifiers @ '' WHERE '' @ w @ '' '') clauses)
      else if startsWith (toLowerCase clause) ''group by'' then
        (case wrapSimpleList proto fieldMaps clause groupByRegex queryString of
           Inl e \<Rightarrow> Inl e
         | Inr w \<Rightarrow>
             eachQualifier proto fieldMaps queryString
               (wrappedQualifiers @ '' GROUP BY '' @ w @ '' '') clauses)
      else if startsWith (toLowerCase clause) ''order by'' then
        (case wrapSimpleList proto fieldMaps clause orderByRegex queryString of
           Inl e \<Rightarrow> Inl e
         | Inr w \<Rightarrow>
             eachQualifier proto fieldMaps queryString
               (wrappedQualifiers @ '' ORDER BY '' @ w @ '' '' @ orderDirection clause) clauses)
      else eachQualifier proto fieldMaps queryString (wrappedQualifiers @ '' '' @ clause) clauses)"

definition wrapQualifiers :: "proto \<Rightarrow> fieldmap \<Rightarrow> string \<Rightarrow> error + string" where
  "wrapQualifiers proto fieldMaps queryString =
     (case matchGlobal queryString qualifierRegex of
        None \<Rightarrow> Inr []
      | Some remainingClauses \<Rightarrow> eachQualifier proto fieldMaps queryString [] remainingClauses)"

text \<open>\<^verbatim>\<open>dumbdown\<close> (lines 276 to 281), the entry point\<close>

definition dumbdown :: "proto \<Rightarrow> fieldmap \<Rightarrow> string \<Rightarrow> error + string" where
  "dumbdown proto fieldMaps queryString =
     (case wrapSelects proto fieldMaps queryString of
        Inl e \<Rightarrow> Inl e
      | Inr selectPortion \<Rightarrow>
          (case wrapFrom queryString of
             Inl e \<Rightarrow> Inl e
           | Inr fromPortion \<Rightarrow>
               (case wrapQualifiers proto fieldMaps queryString of
                  Inl e \<Rightarrow> Inl e
                | Inr qualifierPortion \<Rightarrow>
                    Inr (selectPortion @ fromPortion @ qualifierPortion))))"

section \<open>Notions used to state the properties\<close>

text \<open>\<open>join xs sep\<close> is the text of the pieces \<open>xs\<close> with \<open>sep\<close> between
  neighbours (\<^verbatim>\<open>xs.join(sep)\<close>).\<close>

fun join :: "string list \<Rightarrow> string \<Rightarrow> string" where
  "join [] sep = []"
| "join [x] sep = x"
| "join (x # y # ys) sep = x @ sep @ join (y # ys) sep"

text \<open>The tokens of a string are its maximal runs of characters that are not white
  space, in order. Two strings with the same tokens differ in white space only.\<close>

fun tokensAcc :: "string \<Rightarrow> string \<Rightarrow> string list" where
  "tokensAcc acc [] = (if acc = [] then [] else [acc])"
| "tokensAcc acc (c # cs) =
     (if isWhiteSpace c then (if acc = [] then tokensAcc [] cs else acc # tokensAcc [] cs)
      else tokensAcc (acc @ [c]) cs)"

definition tokens :: "string \<Rightarrow> string list" where
  "tokens s = tokensAcc [] s"

text \<open>The field map of the manual's first example.\<close>

definition userFieldMap :: fieldmap where
  "userFieldMap =
     [(''user'', [(''id'', ''Id''), (''full_name'', ''FullName__c''),
                  (''first_name'', ''FirstName__c''), (''last_name'', ''LastName__c'')])]"

text \<open>The field map of the manual's JOIN example and of its GROUP BY and ORDER BY
  example.\<close>

definition joinFieldMap :: fieldmap where
  "joinFieldMap =
     [(''user'', [(''id'', ''Id''), (''name'', ''Name'')]),
      (''profile'', [(''user_id'', ''UserId''), (''address'', ''Address__c'')])]"

definition meetingsFieldMap :: fieldmap where
  "meetingsFieldMap =
     [(''meetings'', [(''id'', ''Id''), (''date'', ''Date''), (''time'', ''Event_Time__c''),
                      (''subject'', ''Subject__c'')])]"

section \<open>Facts about the string primitives\<close>

text \<open>The case mappings on the bits of a character: the ranges are intervals of the
  order on characters, and in them adding or subtracting 32 is setting or clearing bit 5.
  Evaluation uses these equations.\<close>

lemma canonicalize_bits [code]:
  "canonicalize c =
     (if CHR ''a'' \<le> c \<and> c \<le> CHR ''z''
      then (case c of Char b0 b1 b2 b3 b4 b5 b6 b7 \<Rightarrow> Char b0 b1 b2 b3 b4 False b6 b7)
      else c)"
proof (cases c)
  case (Char b0 b1 b2 b3 b4 b5 b6 b7)
  show ?thesis
    unfolding Char canonicalize_def
    by (cases b0; cases b1; cases b2; cases b3; cases b4; cases b5; cases b6; cases b7;
        simp add: char_of_def bit_Suc_0_iff)
qed

lemma toLowerChar_bits [code]:
  "toLowerChar c =
     (if (CHR ''A'' \<le> c \<and> c \<le> CHR ''Z'') \<or> (CHR 0xC0 \<le> c \<and> c \<le> CHR 0xDE \<and> c \<noteq> CHR 0xD7)
      then (case c of Char b0 b1 b2 b3 b4 b5 b6 b7 \<Rightarrow> Char b0 b1 b2 b3 b4 True b6 b7)
      else c)"
proof (cases c)
  case (Char b0 b1 b2 b3 b4 b5 b6 b7)
  show ?thesis
    unfolding Char toLowerChar_def
    by (cases b0; cases b1; cases b2; cases b3; cases b4; cases b5; cases b6; cases b7;
        simp add: char_of_def bit_Suc_0_iff)
qed

lemma startsWith_prefix: "startsWith s p = prefix p s"
  by (induction s p rule: startsWith.induct) auto

lemma indexFrom_sublist: "0 \<le> i \<Longrightarrow> (indexFrom i s p > -1) = sublist p s"
proof (induction s arbitrary: i)
  case Nil
  then show ?case by simp
next
  case (Cons c cs)
  then show ?case by (simp add: startsWith_prefix sublist_Cons_right)
qed

text \<open>\<^verbatim>\<open>s.indexOf(p) > -1\<close> says that \<open>p\<close> occurs in \<open>s\<close> as a contiguous
  substring.\<close>

lemma indexOf_sublist: "(indexOf s p > -1) = sublist p s"
  by (simp add: indexOf_def indexFrom_sublist)

lemma sublist_single: "sublist [x] s = (x \<in> set s)"
  by (induction s) (auto simp: sublist_Cons_right)

lemma join_Cons: "ys \<noteq> [] \<Longrightarrow> join (x # ys) sep = x @ sep @ join ys sep"
  by (cases ys) auto

lemma join_concat: "join (x # ys) sep = x @ concat (map (\<lambda>y. sep @ y) ys)"
  by (induction ys arbitrary: x) auto

lemma splitAcc_nonempty: "splitAcc sep acc s \<noteq> []"
  by (induction sep acc s rule: splitAcc.induct) auto

lemma splitAcc_at_sep: "sep \<noteq> [] \<Longrightarrow> splitAcc sep acc (sep @ r) = acc # splitAcc sep [] r"
  by (cases sep) (auto simp: startsWith_prefix)

lemma splitAcc_no_sep: "sep \<noteq> [] \<Longrightarrow> \<not> sublist sep s \<Longrightarrow> splitAcc sep acc s = [acc @ s]"
proof (induction s arbitrary: acc)
  case Nil
  then show ?case by simp
next
  case (Cons c cs)
  then show ?case by (auto simp: startsWith_prefix sublist_Cons_right)
qed

text \<open>Joining the pieces of a split with the separator gives the text back.\<close>

lemma splitAcc_join: "sep \<noteq> [] \<Longrightarrow> join (splitAcc sep acc s) sep = acc @ s"
proof (induction sep acc s rule: splitAcc.induct)
  case (1 sep acc)
  then show ?case by simp
next
  case (2 sep acc c cs)
  show ?case
  proof (cases "startsWith (c # cs) sep")
    case True
    then obtain r where r: "c # cs = sep @ r" by (auto simp: startsWith_prefix prefix_def)
    with 2 have d: "drop (length sep - 1) cs = r"
      by (cases sep) auto
    from 2 True d have "join (splitAcc sep [] r) sep = r" by simp
    moreover have "splitAcc sep acc (c # cs) = acc # splitAcc sep [] r"
      unfolding r using 2(3) by (rule splitAcc_at_sep)
    ultimately show ?thesis
      by (simp add: join_Cons splitAcc_nonempty r del: splitAcc.simps)
  next
    case False
    with 2 show ?thesis by simp
  qed
qed

lemma no_occurrence:
  assumes "sep \<noteq> []" and "\<forall>k<length xs. \<not> prefix sep (drop k (xs @ ys))"
  shows "\<not> sublist sep xs"
proof
  assume "sublist sep xs"
  then obtain ps ss where xs: "xs = ps @ sep @ ss" by (auto simp: sublist_def)
  with assms(1) have "length ps < length xs" by simp
  with assms(2) have "\<not> prefix sep (drop (length ps) (xs @ ys))" by blast
  then show False by (simp add: xs)
qed

text \<open>No piece of a split holds the separator. The invariant of the scan: no occurrence
  of the separator starts inside the piece under construction.\<close>

lemma splitAcc_pieces:
  assumes "sep \<noteq> []" and "\<forall>k<length acc. \<not> prefix sep (drop k (acc @ s))"
    and "p \<in> set (splitAcc sep acc s)"
  shows "\<not> sublist sep p"
  using assms
proof (induction sep acc s rule: splitAcc.induct)
  case (1 sep acc)
  then show ?case using no_occurrence [of sep acc "[]"] by simp
next
  case (2 sep acc c cs)
  show ?case
  proof (cases "startsWith (c # cs) sep")
    case True
    from 2(3,4) have acc: "\<not> sublist sep acc" by (rule no_occurrence)
    from True 2(5) have "p = acc \<or> p \<in> set (splitAcc sep [] (drop (length sep - 1) cs))"
      by simp
    then show ?thesis
    proof
      assume "p = acc" with acc show ?thesis by simp
    next
      assume "p \<in> set (splitAcc sep [] (drop (length sep - 1) cs))"
      with 2(1) [OF True 2(3)] show ?thesis by simp
    qed
  next
    case False
    have "\<forall>k<length (acc @ [c]). \<not> prefix sep (drop k ((acc @ [c]) @ cs))"
    proof (intro allI impI)
      fix k assume "k < length (acc @ [c])"
      then have "k < length acc \<or> k = length acc" by auto
      then show "\<not> prefix sep (drop k ((acc @ [c]) @ cs))"
      proof
        assume "k < length acc" with 2(4) show ?thesis by simp
      next
        assume "k = length acc" with False show ?thesis by (simp add: startsWith_prefix)
      qed
    qed
    moreover from False 2(5) have "p \<in> set (splitAcc sep (acc @ [c]) cs)" by simp
    ultimately show ?thesis using 2(2) [OF False 2(3)] by blast
  qed
qed

lemma splitAcc_chars: "p \<in> set (splitAcc sep acc s) \<Longrightarrow> set p \<subseteq> set acc \<union> set s"
proof (induction sep acc s arbitrary: p rule: splitAcc.induct)
  case (1 sep acc)
  then show ?case by simp
next
  case (2 sep acc c cs)
  show ?case
  proof (cases "startsWith (c # cs) sep")
    case True
    with 2(3) have "p = acc \<or> p \<in> set (splitAcc sep [] (drop (length sep - 1) cs))" by simp
    then show ?thesis
    proof
      assume "p = acc" then show ?thesis by auto
    next
      assume "p \<in> set (splitAcc sep [] (drop (length sep - 1) cs))"
      from 2(1) [OF True this] have "set p \<subseteq> set (drop (length sep - 1) cs)" by simp
      also have "\<dots> \<subseteq> set cs" by (rule set_drop_subset)
      finally show ?thesis by auto
    qed
  next
    case False
    with 2(3) have "p \<in> set (splitAcc sep (acc @ [c]) cs)" by simp
    from 2(2) [OF False this] show ?thesis by auto
  qed
qed

lemma split_pieces:
  assumes "sep \<noteq> []" and "p \<in> set (split s sep)"
  shows "\<not> sublist sep p" and "set p \<subseteq> set s"
  using assms splitAcc_pieces [of sep "[]" s p] splitAcc_chars [of p sep "[]" s]
  by (auto simp: split_def)

lemma split_join: "sep \<noteq> [] \<Longrightarrow> join (split s sep) sep = s"
  by (simp add: split_def splitAcc_join)

lemma split_nonempty: "sep \<noteq> [] \<Longrightarrow> split s sep \<noteq> []"
  by (simp add: split_def splitAcc_nonempty)

lemma split_no_sep: "sep \<noteq> [] \<Longrightarrow> \<not> sublist sep s \<Longrightarrow> split s sep = [s]"
  by (simp add: split_def splitAcc_no_sep)

text \<open>A split on one character: the first piece ends at the first occurrence.\<close>

lemma splitAcc_single_sep:
  "x \<notin> set a \<Longrightarrow> splitAcc [x] acc (a @ x # rest) = (acc @ a) # splitAcc [x] [] rest"
  by (induction a arbitrary: acc) auto

lemma splitAcc_single_hd: "at (splitAcc [x] acc s) 0 = Some (acc @ takeWhile (\<lambda>c. c \<noteq> x) s)"
  by (induction s arbitrary: acc) auto

lemma split_single_sep: "x \<notin> set a \<Longrightarrow> split (a @ x # rest) [x] = a # split rest [x]"
  by (simp add: split_def splitAcc_single_sep)

lemma split_single_hd: "at (split s [x]) 0 = Some (takeWhile (\<lambda>c. c \<noteq> x) s)"
  by (simp add: split_def splitAcc_single_hd)

text \<open>No regular expression of the program matches the empty string: the dots need a
  character.\<close>

lemma matchLead_empty: "matchLead re as [] = None"
  by (induction as) (auto simp: dots_def split: option.splits)

lemma match_empty: "match [] re = None"
  by (simp add: match_def matchHere_def matchLead_empty)

text \<open>What \<^verbatim>\<open>splitFields\<close> returns: the pieces of the captured fragment, stripped
  of white space and split at the commas.\<close>

lemma splitFields_Inr:
  "splitFields queryString re returnIdx = Inr pieces \<Longrightarrow>
   \<exists>groups g. match queryString re = Some groups \<and> at groups returnIdx = Some g
     \<and> pieces = split (stripWhitespace g) '',''"
  by (auto simp: splitFields_def split: option.splits)

lemma split_comma_pieces:
  assumes "p \<in> set (split (stripWhitespace g) '','')"
  shows "CHR '','' \<notin> set p \<and> (\<forall>c\<in>set p. \<not> isWhiteSpace c)"
proof -
  have "\<not> sublist '','' p" by (rule split_pieces(1) [OF _ assms]) simp
  moreover have "set p \<subseteq> set (stripWhitespace g)" by (rule split_pieces(2) [OF _ assms]) simp
  ultimately show ?thesis by (auto simp: sublist_single stripWhitespace_def)
qed

text \<open>The loop of \<^verbatim>\<open>wrapFrom\<close> joins the wrapped names with a comma and a space.\<close>

lemma eachFrom_acc:
  "acc \<noteq> [] \<Longrightarrow> eachFrom acc ts = acc @ concat (map (\<lambda>t. '', '' @ ''{'' @ t @ ''}'') ts)"
  by (induction ts arbitrary: acc) (auto simp: commafy_def)

lemma eachFrom_join: "eachFrom [] ts = join (map (\<lambda>t. ''{'' @ t @ ''}'') ts) '', ''"
proof (cases ts)
  case Nil
  then show ?thesis by simp
next
  case (Cons t ts')
  then show ?thesis
    by (simp add: commafy_def eachFrom_acc join_concat comp_def del: join.simps)
qed

text \<open>The loops that raise the flags \<^verbatim>\<open>isTable\<close> and \<^verbatim>\<open>isField\<close>.\<close>

lemma containsAny_iff:
  "containsAny right flag ts = (flag \<or> (\<exists>t\<in>set ts. sublist t right))"
  by (induction ts arbitrary: flag) (auto simp: indexOf_sublist)

section \<open>Facts about the regular expressions\<close>

text \<open>Lower-casing identifies what the case-insensitive comparison identifies.\<close>

lemma toLowerChar_canonicalize: "toLowerChar (canonicalize c) = toLowerChar c"
proof (cases c)
  case (Char b0 b1 b2 b3 b4 b5 b6 b7)
  show ?thesis
    unfolding Char canonicalize_bits toLowerChar_bits
    by (cases b0; cases b1; cases b2; cases b3; cases b4; cases b5; cases b6; cases b7; simp)
qed

lemma matchesKeyword_lower:
  "matchesKeyword k s \<Longrightarrow> prefix (toLowerCase k) (toLowerCase s)"
proof (induction k s rule: matchesKeyword.induct)
  case (1 s)
  then show ?case by (simp add: toLowerCase_def)
next
  case (2 p ps)
  then show ?case by simp
next
  case (3 p ps c cs)
  then have "toLowerChar (canonicalize c) = toLowerChar (canonicalize p)" by simp
  then have "toLowerChar c = toLowerChar p" by (simp add: toLowerChar_canonicalize)
  with 3 show ?case by (simp add: toLowerCase_def)
qed

text \<open>A greedy match ends where the lookahead holds.\<close>

lemma greedyDots_lookahead:
  "greedyDots la acc s = Some d \<Longrightarrow> \<exists>k\<le>length s. lookahead la (drop k s)"
proof (induction s arbitrary: acc d)
  case Nil
  then show ?case by simp
next
  case (Cons c cs)
  show ?case
  proof (cases "greedyDots la (acc @ [c]) cs")
    case None
    with Cons.prems have "lookahead la cs" by (auto split: if_splits)
    then have "lookahead la (drop 1 (c # cs))" by simp
    then show ?thesis by (intro exI [of _ 1]) simp
  next
    case (Some e)
    from Cons.IH [OF Some] obtain k where "k \<le> length cs" "lookahead la (drop k cs)" by blast
    then have "Suc k \<le> length (c # cs) \<and> lookahead la (drop (Suc k) (c # cs))" by simp
    then show ?thesis by blast
  qed
qed

text \<open>A match is a keyword of the leading group followed by the text of the dots.\<close>

lemma matchLead_Some:
  "matchLead re as s = Some (k, d) \<Longrightarrow> \<exists>n. k = take n s \<and> dots re (drop n s) = Some d"
  by (induction as) (auto split: option.splits)

lemma search_Some:
  "search re s = Some (k, d) \<Longrightarrow> \<exists>pre post. s = pre @ k @ post \<and> dots re post = Some d"
proof (induction s)
  case Nil
  then show ?case by (simp add: matchHere_def matchLead_empty)
next
  case (Cons c cs)
  show ?case
  proof (cases "matchHere re (c # cs)")
    case None
    with Cons obtain pre post where "cs = pre @ k @ post" "dots re post = Some d" by auto
    then have "c # cs = (c # pre) @ k @ post \<and> dots re post = Some d" by simp
    then show ?thesis by blast
  next
    case (Some m)
    with Cons.prems have "matchLead re (lead re) (c # cs) = Some (k, d)"
      by (simp add: matchHere_def)
    from matchLead_Some [OF this] obtain n
      where "k = take n (c # cs)" "dots re (drop n (c # cs)) = Some d" by blast
    then have "c # cs = [] @ k @ drop n (c # cs) \<and> dots re (drop n (c # cs)) = Some d" by simp
    then show ?thesis by blast
  qed
qed

text \<open>The pattern of \<^verbatim>\<open>ORDER BY\<close> only matches a clause that holds \<^verbatim>\<open>asc\<close> or
  \<^verbatim>\<open>desc\<close> in some letter case.\<close>

lemma orderBy_needs_direction:
  assumes "\<not> sublist ''asc'' (toLowerCase clause)" and "\<not> sublist ''desc'' (toLowerCase clause)"
  shows "match clause orderByRegex = None"
proof (rule ccontr)
  assume "match clause orderByRegex \<noteq> None"
  then obtain k d where "search orderByRegex clause = Some (k, d)"
    by (auto simp: match_def split: option.splits)
  from search_Some [OF this] obtain pre post
    where c: "clause = pre @ k @ post" and "dots orderByRegex post = Some d" by blast
  then have "greedyDots (Some [Keyword ''DESC'', Keyword ''ASC'']) [] post = Some d"
    by (simp add: dots_def orderByRegex_def)
  from greedyDots_lookahead [OF this] obtain j
    where "lookahead (Some [Keyword ''DESC'', Keyword ''ASC'']) (drop j post)" by blast
  then have "matchesKeyword ''DESC'' (drop j post) \<or> matchesKeyword ''ASC'' (drop j post)"
    by (auto split: if_splits)
  moreover have "toLowerCase ''DESC'' = ''desc''" and "toLowerCase ''ASC'' = ''asc''"
    by code_simp+
  ultimately
  have "prefix ''desc'' (toLowerCase (drop j post)) \<or> prefix ''asc'' (toLowerCase (drop j post))"
    using matchesKeyword_lower [of "''DESC''" "drop j post"]
      matchesKeyword_lower [of "''ASC''" "drop j post"]
    by auto
  moreover have "toLowerCase clause
      = toLowerCase (pre @ k @ take j post) @ toLowerCase (drop j post)"
    unfolding c toLowerCase_def by (simp flip: map_append)
  ultimately have "sublist ''desc'' (toLowerCase clause) \<or> sublist ''asc'' (toLowerCase clause)"
    by (metis prefix_def sublist_appendI)
  with assms show False by blast
qed

text \<open>A lazy match ends at the first position, after its first character, where the
  lookahead holds.\<close>

lemma lazyDots_first:
  "lazyDots la acc s = Some d \<Longrightarrow>
   \<exists>e. d = acc @ e \<and> e \<noteq> [] \<and> prefix e s \<and> lookahead la (drop (length e) s)
     \<and> (\<forall>k. 0 < k \<and> k < length e \<longrightarrow> \<not> lookahead la (drop k s))"
proof (induction s arbitrary: acc d)
  case Nil
  then show ?case by simp
next
  case (Cons c cs)
  show ?case
  proof (cases "lookahead la cs")
    case True
    with Cons.prems have "d = acc @ [c]" by (auto split: if_splits)
    with True show ?thesis by (intro exI [of _ "[c]"]) simp
  next
    case False
    with Cons.prems have "lazyDots la (acc @ [c]) cs = Some d" by (auto split: if_splits)
    from Cons.IH [OF this] obtain e where e: "d = (acc @ [c]) @ e" "e \<noteq> []" "prefix e cs"
      "lookahead la (drop (length e) cs)"
      "\<forall>k. 0 < k \<and> k < length e \<longrightarrow> \<not> lookahead la (drop k cs)" by blast
    have "\<forall>k. 0 < k \<and> k < length (c # e) \<longrightarrow> \<not> lookahead la (drop k (c # cs))"
    proof (intro allI impI)
      fix k assume k: "0 < k \<and> k < length (c # e)"
      then obtain j where j: "k = Suc j" by (cases k) auto
      show "\<not> lookahead la (drop k (c # cs))"
      proof (cases j)
        case 0
        with j False show ?thesis by simp
      next
        case (Suc i)
        with j k e(5) show ?thesis by simp
      qed
    qed
    with e show ?thesis by (intro exI [of _ "c # e"]) simp
  qed
qed

text \<open>A keyword matched at the start of a text is matched whatever follows.\<close>

lemma matchesKeyword_append: "matchesKeyword k s \<Longrightarrow> matchesKeyword k (s @ x)"
  by (induction k s rule: matchesKeyword.induct) auto

text \<open>A lazy match takes exactly the fragment that is followed by the lookahead and holds
  it nowhere after its first character.\<close>

lemma lazyDots_complete:
  assumes "frag \<noteq> []" and "\<forall>c\<in>set frag. \<not> isLineTerminator c" and "lookahead la rest"
    and "\<forall>k. 0 < k \<and> k < length frag \<longrightarrow> \<not> lookahead la (drop k (frag @ rest))"
  shows "lazyDots la acc (frag @ rest) = Some (acc @ frag)"
  using assms
proof (induction frag arbitrary: acc)
  case Nil
  then show ?case by simp
next
  case (Cons c f)
  show ?case
  proof (cases "f = []")
    case True
    with Cons.prems show ?thesis by simp
  next
    case False
    from Cons.prems(4) False have n: "\<not> lookahead la (f @ rest)"
      by (auto dest: spec [of _ 1])
    have "\<forall>k. 0 < k \<and> k < length f \<longrightarrow> \<not> lookahead la (drop k (f @ rest))"
    proof (intro allI impI)
      fix k assume "0 < k \<and> k < length f"
      then have "0 < Suc k \<and> Suc k < length (c # f)" by simp
      with Cons.prems(4) have "\<not> lookahead la (drop (Suc k) ((c # f) @ rest))" by blast
      then show "\<not> lookahead la (drop k (f @ rest))" by simp
    qed
    with Cons.IH [of "acc @ [c]"] False Cons.prems(2,3)
    have "lazyDots la (acc @ [c]) (f @ rest) = Some ((acc @ [c]) @ f)" by simp
    with n Cons.prems(2) show ?thesis by simp
  qed
qed

text \<open>The search passes over the start positions where nothing matches.\<close>

lemma search_skip:
  "\<forall>i<length pre. matchHere re (drop i (pre @ s)) = None \<Longrightarrow> search re (pre @ s) = search re s"
proof (induction pre)
  case Nil
  then show ?case by simp
next
  case (Cons c pre)
  from Cons.prems have "matchHere re (c # pre @ s) = None" by (auto dest: spec [of _ 0])
  moreover have "\<forall>i<length pre. matchHere re (drop i (pre @ s)) = None"
  proof (intro allI impI)
    fix i assume "i < length pre"
    then have "Suc i < length (c # pre)" by simp
    with Cons.prems have "matchHere re (drop (Suc i) ((c # pre) @ s)) = None" by blast
    then show "matchHere re (drop i (pre @ s)) = None" by simp
  qed
  ultimately show ?case using Cons.IH by simp
qed

lemma search_here: "matchHere re s = Some m \<Longrightarrow> search re s = Some m"
  by (cases s) auto

text \<open>The table list of a query whose first \<^verbatim>\<open>FROM\<close> is followed by the fragment
  \<open>frag\<close> and then by a qualifier keyword or the end.\<close>

lemma match_from:
  assumes "queryString = pre @ kw @ frag @ rest"
    and "matchesKeyword ''FROM'' kw" and "length kw = 4"
    and "\<forall>i<length pre. \<not> matchesKeyword ''FROM'' (drop i queryString)"
    and "frag \<noteq> []" and "\<forall>c\<in>set frag. \<not> isLineTerminator c"
    and "lookahead (Some qualifierKeywords) rest"
    and "\<forall>k. 0 < k \<and> k < length frag
           \<longrightarrow> \<not> lookahead (Some qualifierKeywords) (drop k (frag @ rest))"
  shows "match queryString fromRegex = Some [kw @ frag, kw, frag]"
proof -
  have "\<forall>i<length pre. matchHere fromRegex (drop i (pre @ kw @ frag @ rest)) = None"
    using assms(4) unfolding assms(1) by (simp add: matchHere_def fromRegex_def)
  then have "search fromRegex queryString = search fromRegex (kw @ frag @ rest)"
    unfolding assms(1) by (rule search_skip)
  moreover have "lazyDots (Some qualifierKeywords) [] (frag @ rest) = Some ([] @ frag)"
    using assms(5-8) by (rule lazyDots_complete)
  then have "matchHere fromRegex (kw @ frag @ rest) = Some (kw, frag)"
    using matchesKeyword_append [OF assms(2), of "frag @ rest"] assms(3)
    by (simp add: matchHere_def fromRegex_def dots_def)
  then have "search fromRegex (kw @ frag @ rest) = Some (kw, frag)" by (rule search_here)
  ultimately show ?thesis by (simp add: match_def fromRegex_def)
qed

text \<open>Splitting at commas is the inverse of joining names that hold no comma.\<close>

lemma split_join_single:
  "ts \<noteq> [] \<Longrightarrow> \<forall>t\<in>set ts. x \<notin> set t \<Longrightarrow> split (join ts [x]) [x] = ts"
proof (induction ts)
  case Nil
  then show ?case by simp
next
  case (Cons t ts)
  show ?case
  proof (cases "ts = []")
    case True
    with Cons.prems show ?thesis by (simp add: split_no_sep sublist_single)
  next
    case False
    with Cons have "split (join ts [x]) [x] = ts" by simp
    with False Cons.prems show ?thesis by (simp add: join_Cons split_single_sep)
  qed
qed

text \<open>Reading a bounded range of positions as a list, for evaluation.\<close>

lemma all_less_list_all: "(\<forall>i<n. P i) = list_all P [0..<n]"
  by (auto simp: list_all_iff)

lemma all_between_list_all: "(\<forall>k. 0 < k \<and> k < n \<longrightarrow> P k) = list_all P [1..<n]"
  by (auto simp: list_all_iff)

section \<open>The manual's WHERE example\<close>

text \<open>
  Claim C1. With the field map \<open>{user: {id: "Id", full_name: "FullName__c", first_name:
  "FirstName__c", last_name: "LastName__c"}}\<close>, the query
  \<^verbatim>\<open>SELECT id, full_name FROM user WHERE first_name = 'John' AND last_name = 'Smith' LIMIT 100\<close>
  is rewritten without error, whatever the objects of the field map inherit (every name
  read is an own entry). The first conjunct is the exact text returned (two spaces
  before \<^verbatim>\<open>FROM\<close> and \<^verbatim>\<open>WHERE\<close>, three before \<^verbatim>\<open>LIMIT\<close>); the second says that
  its tokens are, in content and order, those of the text the specification gives, which
  has two spaces before \<^verbatim>\<open>LIMIT\<close>.
\<close>

theorem dumbdown_where_example:
  "dumbdown proto userFieldMap
     ''SELECT id, full_name FROM user WHERE first_name = 'John' AND last_name = 'Smith' LIMIT 100''
   = Inr ''SELECT {user:Id}, {user:FullName__c}  FROM {user}  WHERE {user:FirstName__c} = 'John' AND {user:LastName__c} = 'Smith'   LIMIT 100''
   \<and> tokens ''SELECT {user:Id}, {user:FullName__c}  FROM {user}  WHERE {user:FirstName__c} = 'John' AND {user:LastName__c} = 'Smith'   LIMIT 100''
     = tokens ''SELECT {user:Id}, {user:FullName__c}  FROM {user}  WHERE {user:FirstName__c} = 'John' AND {user:LastName__c} = 'Smith'  LIMIT 100''"
  by code_simp

section \<open>ORDER BY without a direction\<close>

text \<open>
  Claim C2 says that an ORDER BY clause with no direction is rewritten with no suffix. The
  manual in the header of \<^verbatim>\<open>dumbdown.js\<close> shows the same (its GROUPS AND ORDERS
  example). The code throws instead: the pattern
  \<^verbatim>\<open>/(?:ORDER BY)(.+)(?=DESC|ASC)/i\<close> needs a direction after the field list, so on
  every ORDER BY clause that holds neither \<^verbatim>\<open>asc\<close> nor \<^verbatim>\<open>desc\<close> in any letter
  case \<^verbatim>\<open>match\<close> returns \<^verbatim>\<open>null\<close> and \<^verbatim>\<open>wrapSimpleList\<close> fails with a
  \<^verbatim>\<open>TypeError\<close> (first conjunct). The second conjunct is the manual's example on
  one line; the third is the same query with a direction, which is rewritten. The fourth
  is a clause with no direction whose field name holds \<^verbatim>\<open>desc\<close>: the pattern takes
  that for the direction, the field list is cut before it and \<^verbatim>\<open>DESC\<close> is appended
  (for a field map of object literals, which inherit no member of the empty name).
\<close>

theorem order_by_without_direction_throws:
  "(\<not> sublist ''asc'' (toLowerCase clause) \<and> \<not> sublist ''desc'' (toLowerCase clause)
      \<longrightarrow> wrapSimpleList proto fieldMaps clause orderByRegex queryString = Inl TypeError)
   \<and> dumbdown proto meetingsFieldMap
        ''SELECT id, date, time, subject FROM meetings GROUP BY date ORDER BY time''
       = Inl TypeError
   \<and> dumbdown proto meetingsFieldMap
        ''SELECT id, date, time, subject FROM meetings GROUP BY date ORDER BY time DESC''
       = Inr ''SELECT {meetings:Id}, {meetings:Date}, {meetings:Event_Time__c}, {meetings:Subject__c}  FROM {meetings}  GROUP BY {meetings:Date}  ORDER BY {meetings:Event_Time__c}  DESC''
   \<and> dumbdown (objectPrototype mt mr mk)
        [(''meetings'', [(''description'', ''Description__c'')])]
        ''SELECT description FROM meetings ORDER BY description''
       = Inr ''SELECT {meetings:Description__c}  FROM {meetings}  ORDER BY {meetings:undefined}  DESC''"
proof (intro conjI impI)
  assume "\<not> sublist ''asc'' (toLowerCase clause) \<and> \<not> sublist ''desc'' (toLowerCase clause)"
  then have "match clause orderByRegex = None" by (simp add: orderBy_needs_direction)
  then show "wrapSimpleList proto fieldMaps clause orderByRegex queryString = Inl TypeError"
    by (simp add: wrapSimpleList_def splitFields_def)
qed code_simp+

theorem order_by_without_direction_throws_witness:
  "\<not> sublist ''asc'' (toLowerCase ''ORDER BY time'')
   \<and> \<not> sublist ''desc'' (toLowerCase ''ORDER BY time'')
   \<and> (\<forall>proto. wrapSimpleList proto meetingsFieldMap ''ORDER BY time'' orderByRegex
        ''SELECT id FROM meetings ORDER BY time'' = Inl TypeError)"
proof -
  have h: "\<not> sublist ''asc'' (toLowerCase ''ORDER BY time'')
           \<and> \<not> sublist ''desc'' (toLowerCase ''ORDER BY time'')"
    by code_simp
  from order_by_without_direction_throws [THEN conjunct1, rule_format, OF h] h
  show ?thesis by simp
qed

section \<open>A field with no entry in the field map\<close>

text \<open>
  Claim C3 says that a field name with no entry under its table makes the rewriting
  fail. It does not: for a field map of object literals the missing vendor field is
  rendered as the text \<^verbatim>\<open>undefined\<close> inside the token, and the whole query is
  rewritten.
\<close>

theorem unknown_field_counterexample:
  "\<forall>mt mr mk.
     map_of userFieldMap ''user'' \<noteq> None
     \<and> dumbifyField (objectPrototype mt mr mk) userFieldMap ''nickname'' [''user'']
         = Inr ''{user:undefined}''
     \<and> dumbdown (objectPrototype mt mr mk) userFieldMap ''SELECT nickname FROM user''
         = Inr ''SELECT {user:undefined}  FROM {user} ''"
  by (intro allI) code_simp

text \<open>
  Claim C3 as amended. Let the field name have no entry under its resolved table. When the
  table has an entry and the field name is not the name of a member the objects of the
  field map inherit (\<^verbatim>\<open>constructor\<close>, \<^verbatim>\<open>toString\<close> and the like for object
  literals), \<^verbatim>\<open>dumbifyField\<close> returns the token \<^verbatim>\<open>{table:undefined}\<close> and raises
  nothing (conjuncts 1 and 2: bare field, resolved against the first table, and dotted
  field). For the name of an inherited member it returns the token with the text of that
  member (conjuncts 3 and 4). When the resolved table has no entry, it raises a
  \<^verbatim>\<open>TypeError\<close> if the table name is not the name of an inherited member (conjuncts 5
  and 6); if it is, the field is read from the inherited member and the outcome is the
  one of that read (conjuncts 7 and 8).
\<close>

theorem dumbifyField_unknown_field:
  "(CHR ''.'' \<notin> set field \<and> map_of fieldMaps t = Some m \<and> map_of m field = None
      \<and> field \<notin> set (inheritedNames proto)
    \<longrightarrow> dumbifyField proto fieldMaps field (t # ts) = Inr (''{'' @ t @ '':undefined}''))
   \<and> (field = table @ ''.'' @ rest \<and> CHR ''.'' \<notin> set table
      \<and> map_of fieldMaps table = Some m
      \<and> map_of m (takeWhile (\<lambda>c. c \<noteq> CHR ''.'') rest) = None
      \<and> takeWhile (\<lambda>c. c \<noteq> CHR ''.'') rest \<notin> set (inheritedNames proto)
    \<longrightarrow> dumbifyField proto fieldMaps field tables = Inr (''{'' @ table @ '':undefined}''))
   \<and> (CHR ''.'' \<notin> set field \<and> map_of fieldMaps t = Some m \<and> map_of m field = None
      \<and> field \<in> set (inheritedNames proto)
    \<longrightarrow> dumbifyField proto fieldMaps field (t # ts)
        = Inr (''{'' @ t @ '':'' @ memberText proto field @ ''}''))
   \<and> (field = table @ ''.'' @ rest \<and> CHR ''.'' \<notin> set table
      \<and> map_of fieldMaps table = Some m
      \<and> map_of m (takeWhile (\<lambda>c. c \<noteq> CHR ''.'') rest) = None
      \<and> takeWhile (\<lambda>c. c \<noteq> CHR ''.'') rest \<in> set (inheritedNames proto)
    \<longrightarrow> dumbifyField proto fieldMaps field tables
        = Inr (''{'' @ table @ '':''
               @ memberText proto (takeWhile (\<lambda>c. c \<noteq> CHR ''.'') rest) @ ''}''))
   \<and> (CHR ''.'' \<notin> set field \<and> map_of fieldMaps t = None \<and> t \<notin> set (inheritedNames proto)
    \<longrightarrow> dumbifyField proto fieldMaps field (t # ts) = Inl TypeError)
   \<and> (field = table @ ''.'' @ rest \<and> CHR ''.'' \<notin> set table \<and> map_of fieldMaps table = None
      \<and> table \<notin> set (inheritedNames proto)
    \<longrightarrow> dumbifyField proto fieldMaps field tables = Inl TypeError)
   \<and> (CHR ''.'' \<notin> set field \<and> map_of fieldMaps t = None \<and> t \<in> set (inheritedNames proto)
    \<longrightarrow> dumbifyField proto fieldMaps field (t # ts)
        = (case memberRead proto t field of
             Inl e \<Rightarrow> Inl e | Inr v \<Rightarrow> Inr (''{'' @ t @ '':'' @ v @ ''}'')))
   \<and> (field = table @ ''.'' @ rest \<and> CHR ''.'' \<notin> set table \<and> map_of fieldMaps table = None
      \<and> table \<in> set (inheritedNames proto)
    \<longrightarrow> dumbifyField proto fieldMaps field tables
        = (case memberRead proto table (takeWhile (\<lambda>c. c \<noteq> CHR ''.'') rest) of
             Inl e \<Rightarrow> Inl e | Inr v \<Rightarrow> Inr (''{'' @ table @ '':'' @ v @ ''}'')))"
  by (auto simp: dumbifyField_def vendorField_def indexOf_sublist sublist_single
      split_single_sep split_single_hd split: sum.splits)

theorem dumbifyField_unknown_field_witness:
  "\<forall>mt mr mk.
     dumbifyField (objectPrototype mt mr mk) userFieldMap ''nickname'' [''user'']
       = Inr ''{user:undefined}''
     \<and> dumbifyField (objectPrototype mt mr mk) userFieldMap ''user.nickname'' [''profile'']
       = Inr ''{user:undefined}''
     \<and> dumbifyField (objectPrototype mt mr mk) userFieldMap ''constructor'' [''user'']
       = Inr (''{user:'' @ mt ''constructor'' @ ''}'')
     \<and> dumbifyField (objectPrototype mt mr mk) userFieldMap ''nickname'' [''profile'']
       = Inl TypeError
     \<and> dumbifyField (objectPrototype mt mr mk) userFieldMap ''profile.nickname'' [''user'']
       = Inl TypeError
     \<and> dumbifyField (objectPrototype mt mr mk) userFieldMap ''constructor.id'' [''user'']
       = (case mr ''constructor'' ''id'' of
            Inl e \<Rightarrow> Inl e | Inr v \<Rightarrow> Inr (''{constructor:'' @ v @ ''}''))"
proof (intro allI)
  fix mt mr mk
  have m: "map_of userFieldMap ''user''
             = Some [(''id'', ''Id''), (''full_name'', ''FullName__c''),
                     (''first_name'', ''FirstName__c''), (''last_name'', ''LastName__c'')]"
    and n: "map_of userFieldMap ''profile'' = None"
    and c: "map_of userFieldMap ''constructor'' = None"
    by (simp_all add: userFieldMap_def)
  note t = dumbifyField_unknown_field
    [where proto = "objectPrototype mt mr mk" and fieldMaps = userFieldMap
       and m = "[(''id'', ''Id''), (''full_name'', ''FullName__c''),
                 (''first_name'', ''FirstName__c''), (''last_name'', ''LastName__c'')]"]
  have "dumbifyField (objectPrototype mt mr mk) userFieldMap ''nickname'' [''user'']
          = Inr ''{user:undefined}''"
    using m t [where field = "''nickname''" and t = "''user''" and ts = "[]"]
    by (simp add: objectPrototype_def)
  moreover have "dumbifyField (objectPrototype mt mr mk) userFieldMap ''user.nickname''
                   [''profile''] = Inr ''{user:undefined}''"
    using m t [where field = "''user.nickname''" and table = "''user''"
                 and rest = "''nickname''" and tables = "[''profile'']"]
    by (simp add: objectPrototype_def)
  moreover have "dumbifyField (objectPrototype mt mr mk) userFieldMap ''constructor''
                   [''user''] = Inr (''{user:'' @ mt ''constructor'' @ ''}'')"
    using m t [where field = "''constructor''" and t = "''user''" and ts = "[]"]
    by (simp add: objectPrototype_def)
  moreover have "dumbifyField (objectPrototype mt mr mk) userFieldMap ''nickname''
                   [''profile''] = Inl TypeError"
    using n t [where field = "''nickname''" and t = "''profile''" and ts = "[]"]
    by (simp add: objectPrototype_def)
  moreover have "dumbifyField (objectPrototype mt mr mk) userFieldMap ''profile.nickname''
                   [''user''] = Inl TypeError"
    using n t [where field = "''profile.nickname''" and table = "''profile''"
                 and rest = "''nickname''" and tables = "[''user'']"]
    by (simp add: objectPrototype_def)
  moreover have "dumbifyField (objectPrototype mt mr mk) userFieldMap ''constructor.id''
                   [''user'']
                 = (case mr ''constructor'' ''id'' of
                      Inl e \<Rightarrow> Inl e | Inr v \<Rightarrow> Inr (''{constructor:'' @ v @ ''}''))"
    using c t [where field = "''constructor.id''" and table = "''constructor''"
                 and rest = "''id''" and tables = "[''user'']"]
    by (simp add: objectPrototype_def cong: sum.case_cong)
  ultimately show "dumbifyField (objectPrototype mt mr mk) userFieldMap ''nickname'' [''user'']
       = Inr ''{user:undefined}''
     \<and> dumbifyField (objectPrototype mt mr mk) userFieldMap ''user.nickname'' [''profile'']
       = Inr ''{user:undefined}''
     \<and> dumbifyField (objectPrototype mt mr mk) userFieldMap ''constructor'' [''user'']
       = Inr (''{user:'' @ mt ''constructor'' @ ''}'')
     \<and> dumbifyField (objectPrototype mt mr mk) userFieldMap ''nickname'' [''profile'']
       = Inl TypeError
     \<and> dumbifyField (objectPrototype mt mr mk) userFieldMap ''profile.nickname'' [''user'']
       = Inl TypeError
     \<and> dumbifyField (objectPrototype mt mr mk) userFieldMap ''constructor.id'' [''user'']
       = (case mr ''constructor'' ''id'' of
            Inl e \<Rightarrow> Inl e | Inr v \<Rightarrow> Inr (''{constructor:'' @ v @ ''}''))"
    by simp
qed

section \<open>The field resolver\<close>

text \<open>
  Claim C4. A field that holds a dot, \<open>table.fieldName\<close> (the table is the text before
  the first dot, the field name the text from there to the next dot or the end), resolves
  to \<^verbatim>\<open>{table:FieldMap[table][fieldName]}\<close> whatever the table list; a field with
  no dot resolves against the first table \<open>t\<close> of the list to
  \<^verbatim>\<open>{t:FieldMap[t][field]}\<close>. In both cases the entries are required to exist; an own
  entry is read before any inherited member, so this holds whatever the objects of the
  field map inherit.
\<close>

theorem dumbifyField_resolves:
  "(field = table @ ''.'' @ rest \<and> CHR ''.'' \<notin> set table
      \<and> map_of fieldMaps table = Some m
      \<and> map_of m (takeWhile (\<lambda>c. c \<noteq> CHR ''.'') rest) = Some v
    \<longrightarrow> dumbifyField proto fieldMaps field tables = Inr (''{'' @ table @ '':'' @ v @ ''}''))
   \<and> (CHR ''.'' \<notin> set field \<and> tables = t # ts
      \<and> map_of fieldMaps t = Some m \<and> map_of m field = Some v
    \<longrightarrow> dumbifyField proto fieldMaps field tables = Inr (''{'' @ t @ '':'' @ v @ ''}''))"
  by (auto simp: dumbifyField_def vendorField_def indexOf_sublist sublist_single
      split_single_sep split_single_hd)

theorem dumbifyField_resolves_witness:
  "\<forall>proto.
     dumbifyField proto userFieldMap ''user.first_name'' [''profile''] = Inr ''{user:FirstName__c}''
     \<and> dumbifyField proto userFieldMap ''full_name'' [''user'', ''profile'']
         = Inr ''{user:FullName__c}''"
proof (intro allI)
  fix proto
  have m: "map_of userFieldMap ''user''
             = Some [(''id'', ''Id''), (''full_name'', ''FullName__c''),
                     (''first_name'', ''FirstName__c''), (''last_name'', ''LastName__c'')]"
    by (simp add: userFieldMap_def)
  note t = dumbifyField_resolves
    [where proto = proto and fieldMaps = userFieldMap
       and m = "[(''id'', ''Id''), (''full_name'', ''FullName__c''),
                 (''first_name'', ''FirstName__c''), (''last_name'', ''LastName__c'')]"]
  have "dumbifyField proto userFieldMap ''user.first_name'' [''profile'']
          = Inr ''{user:FirstName__c}''"
    using m t [where field = "''user.first_name''" and table = "''user''"
                 and rest = "''first_name''" and v = "''FirstName__c''"
                 and tables = "[''profile'']"] by simp
  moreover have "dumbifyField proto userFieldMap ''full_name'' [''user'', ''profile'']
          = Inr ''{user:FullName__c}''"
    using m t [where field = "''full_name''" and t = "''user''" and ts = "[''profile'']"
                 and v = "''FullName__c''" and tables = "[''user'', ''profile'']"] by simp
  ultimately show "dumbifyField proto userFieldMap ''user.first_name'' [''profile'']
        = Inr ''{user:FirstName__c}''
     \<and> dumbifyField proto userFieldMap ''full_name'' [''user'', ''profile'']
         = Inr ''{user:FullName__c}''"
    by simp
qed

section \<open>The right-hand side of an equality in WHERE\<close>

text \<open>
  Claim C5 says that a right-hand side holding a quote character is kept verbatim. It is
  not when the literal holds an equals sign: the clause is split at every equals sign and
  only the second piece is read, so \<^verbatim>\<open>'a=b'\<close> is emitted as \<^verbatim>\<open>'a\<close>. Nor does
  a double quote count: a double-quoted \<^verbatim>\<open>"user"\<close> holds a table name and is
  resolved as a field.
\<close>

theorem where_literal_counterexample:
  "\<forall>mt mr mk.
     equalityExpression (objectPrototype mt mr mk) joinFieldMap [''user'', ''profile'']
         '' name = 'a=b' ''
       = Inr ''{user:Name} = 'a''
     \<and> dumbdown (objectPrototype mt mr mk) joinFieldMap
         ''SELECT id FROM user WHERE name = 'a=b' ''
       = Inr ''SELECT {user:Id}  FROM {user}  WHERE {user:Name} = 'a ''
     \<and> equalityExpression (objectPrototype mt mr mk) joinFieldMap [''user'', ''profile'']
         ('' name = '' @ [CHR 0x22] @ ''user'' @ [CHR 0x22])
       = Inr ''{user:Name} = {user:undefined}''"
  by (intro allI) code_simp

text \<open>
  Claim C5 as amended. A clause with an equals sign is stripped of white space and split at
  the equals signs: \<open>left\<close> is the text before the first one, \<open>right\<close> the text from
  there to the next one or the end. With \<open>l\<close> the resolved left-hand side, the
  expression built is \<open>l = rhs\<close> where \<open>rhs\<close> is decided in this order: \<open>right\<close>
  itself when it holds an apostrophe (the only quote character tested); else the
  resolution of \<open>right\<close> by \<^verbatim>\<open>dumbifyField\<close> when some table of the list occurs in
  it; else \<^verbatim>\<open>{t0:FieldMap[t0][right]}\<close> for the first table \<open>t0\<close> when some field
  name registered under \<open>t0\<close> occurs in it (the vendor field is looked up under
  \<open>right\<close> as a whole and is the text \<^verbatim>\<open>undefined\<close> when \<open>right\<close> has no entry,
  \<open>right\<close> not being the name of a member the objects of the field map inherit); else
  \<open>right\<close> itself.
\<close>

theorem where_right_hand_side:
  assumes "stripWhitespace clause = left @ ''='' @ rest" and "CHR ''='' \<notin> set left"
    and "right = takeWhile (\<lambda>c. c \<noteq> CHR ''='') rest"
    and "tableList = t0 # ts"
    and "dumbifyField proto fieldMaps left tableList = Inr l"
  shows
    "(CHR 0x27 \<in> set right
        \<longrightarrow> equalityExpression proto fieldMaps tableList clause = Inr (l @ '' = '' @ right))
     \<and> (CHR 0x27 \<notin> set right \<and> (\<exists>t\<in>set tableList. sublist t right)
        \<longrightarrow> equalityExpression proto fieldMaps tableList clause
            = (case dumbifyField proto fieldMaps right tableList of
                 Inl e \<Rightarrow> Inl e | Inr r \<Rightarrow> Inr (l @ '' = '' @ r)))
     \<and> (CHR 0x27 \<notin> set right \<and> \<not> (\<exists>t\<in>set tableList. sublist t right)
          \<and> map_of fieldMaps t0 = Some m \<and> (\<exists>f\<in>set (map fst m). sublist f right)
          \<and> right \<notin> set (inheritedNames proto)
        \<longrightarrow> equalityExpression proto fieldMaps tableList clause
            = Inr (l @ '' = {'' @ t0 @ '':'' @ str (map_of m right) @ ''}''))
     \<and> (CHR 0x27 \<notin> set right \<and> \<not> (\<exists>t\<in>set tableList. sublist t right)
          \<and> \<not> (\<exists>f\<in>set (keys proto fieldMaps t0). sublist f right)
        \<longrightarrow> equalityExpression proto fieldMaps tableList clause = Inr (l @ '' = '' @ right))"
proof -
  have s: "split (stripWhitespace clause) ''='' = left # split rest ''=''"
    unfolding assms(1) using assms(2) by (simp add: split_single_sep)
  have l: "at (split (stripWhitespace clause) ''='') 0 = Some left" by (simp add: s)
  have r: "at (split (stripWhitespace clause) ''='') 1 = Some right"
    by (simp add: s assms(3) split_single_hd)
  have q: "(indexOf right [CHR 0x27] > -1) = (CHR 0x27 \<in> set right)"
    by (simp add: indexOf_sublist sublist_single)
  show ?thesis
    unfolding equalityExpression_def l r
    using assms(4,5)
    by (auto simp: q containsAny_iff keys_def vendorField_def
        simp del: One_nat_def split: option.splits)
qed

theorem where_right_hand_side_witness:
  "\<forall>mt mr mk.
     equalityExpression (objectPrototype mt mr mk) joinFieldMap [''user'', ''profile'']
         '' name = 'profile' ''
       = Inr (''{user:Name} = 'profile'' @ [CHR 0x27])
     \<and> equalityExpression (objectPrototype mt mr mk) joinFieldMap [''user'', ''profile'']
         '' user.id = profile.user_id ''
       = Inr ''{user:Id} = {profile:UserId}''
     \<and> equalityExpression (objectPrototype mt mr mk) joinFieldMap [''user'', ''profile'']
         '' id = name ''
       = Inr ''{user:Id} = {user:Name}''
     \<and> equalityExpression (objectPrototype mt mr mk) joinFieldMap [''user'', ''profile'']
         '' id = 42 ''
       = Inr ''{user:Id} = 42''"
proof (intro allI)
  fix mt mr mk
  define p where "p = objectPrototype mt mr mk"
  have names: "inheritedNames p
      = [''constructor'', ''hasOwnProperty'', ''isPrototypeOf'', ''propertyIsEnumerable'',
         ''toLocaleString'', ''toString'', ''valueOf'', ''__proto__'',
         ''__defineGetter__'', ''__defineSetter__'', ''__lookupGetter__'',
         ''__lookupSetter__'']"
    by (simp add: p_def objectPrototype_def)
  have m: "map_of joinFieldMap ''user'' = Some [(''id'', ''Id''), (''name'', ''Name'')]"
    by (simp add: joinFieldMap_def)
  have dn: "dumbifyField p joinFieldMap ''name'' [''user'', ''profile''] = Inr ''{user:Name}''"
    and di: "dumbifyField p joinFieldMap ''id'' [''user'', ''profile''] = Inr ''{user:Id}''"
    and du: "dumbifyField p joinFieldMap ''user.id'' [''user'', ''profile''] = Inr ''{user:Id}''"
    and dp: "dumbifyField p joinFieldMap ''profile.user_id'' [''user'', ''profile'']
               = Inr ''{profile:UserId}''"
    unfolding p_def by code_simp+
  have "equalityExpression p joinFieldMap [''user'', ''profile''] '' name = 'profile' ''
          = Inr (''{user:Name}'' @ '' = '' @ [CHR 0x27] @ ''profile'' @ [CHR 0x27])"
  proof (rule where_right_hand_side
      [where left = "''name''" and rest = "[CHR 0x27] @ ''profile'' @ [CHR 0x27]",
       THEN conjunct1, rule_format])
    show "stripWhitespace '' name = 'profile' ''
            = ''name'' @ ''='' @ [CHR 0x27] @ ''profile'' @ [CHR 0x27]"
      by code_simp
    show "dumbifyField p joinFieldMap ''name'' [''user'', ''profile''] = Inr ''{user:Name}''"
      by (rule dn)
  qed simp_all
  moreover have "equalityExpression p joinFieldMap [''user'', ''profile'']
            '' user.id = profile.user_id ''
          = (case dumbifyField p joinFieldMap ''profile.user_id'' [''user'', ''profile''] of
               Inl e \<Rightarrow> Inl e | Inr r \<Rightarrow> Inr (''{user:Id}'' @ '' = '' @ r))"
  proof (rule where_right_hand_side
      [where left = "''user.id''" and rest = "''profile.user_id''",
       THEN conjunct2, THEN conjunct1, rule_format])
    show "stripWhitespace '' user.id = profile.user_id ''
            = ''user.id'' @ ''='' @ ''profile.user_id''"
      by code_simp
    show "dumbifyField p joinFieldMap ''user.id'' [''user'', ''profile''] = Inr ''{user:Id}''"
      by (rule du)
    show "CHR 0x27 \<notin> set ''profile.user_id''
            \<and> (\<exists>t\<in>set [''user'', ''profile'']. sublist t ''profile.user_id'')"
      by (simp add: sublist_code(3))
  qed simp_all
  moreover have "equalityExpression p joinFieldMap [''user'', ''profile''] '' id = name ''
          = Inr (''{user:Id}'' @ '' = {'' @ ''user'' @ '':''
                 @ str (map_of [(''id'', ''Id''), (''name'', ''Name'')] ''name'') @ ''}'')"
  proof (rule where_right_hand_side
      [where left = "''id''" and rest = "''name''",
       THEN conjunct2, THEN conjunct2, THEN conjunct1, rule_format])
    show "stripWhitespace '' id = name '' = ''id'' @ ''='' @ ''name''"
      by code_simp
    show "dumbifyField p joinFieldMap ''id'' [''user'', ''profile''] = Inr ''{user:Id}''"
      by (rule di)
    show "CHR 0x27 \<notin> set ''name'' \<and> \<not> (\<exists>t\<in>set [''user'', ''profile'']. sublist t ''name'')
            \<and> map_of joinFieldMap ''user'' = Some [(''id'', ''Id''), (''name'', ''Name'')]
            \<and> (\<exists>f\<in>set (map fst [(''id'', ''Id''), (''name'', ''Name'')]). sublist f ''name'')
            \<and> ''name'' \<notin> set (inheritedNames p)"
      using m by (simp add: sublist_code(3) names)
  qed simp_all
  moreover have "equalityExpression p joinFieldMap [''user'', ''profile''] '' id = 42 ''
          = Inr (''{user:Id}'' @ '' = '' @ ''42'')"
  proof (rule where_right_hand_side
      [where left = "''id''" and rest = "''42''",
       THEN conjunct2, THEN conjunct2, THEN conjunct2, rule_format])
    show "stripWhitespace '' id = 42 '' = ''id'' @ ''='' @ ''42''"
      by code_simp
    show "dumbifyField p joinFieldMap ''id'' [''user'', ''profile''] = Inr ''{user:Id}''"
      by (rule di)
    show "CHR 0x27 \<notin> set ''42'' \<and> \<not> (\<exists>t\<in>set [''user'', ''profile'']. sublist t ''42'')
            \<and> \<not> (\<exists>f\<in>set (keys p joinFieldMap ''user''). sublist f ''42'')"
      using m by (simp add: sublist_code(3) keys_def)
  qed simp_all
  ultimately show "equalityExpression (objectPrototype mt mr mk) joinFieldMap
         [''user'', ''profile''] '' name = 'profile' ''
       = Inr (''{user:Name} = 'profile'' @ [CHR 0x27])
     \<and> equalityExpression (objectPrototype mt mr mk) joinFieldMap [''user'', ''profile'']
         '' user.id = profile.user_id ''
       = Inr ''{user:Id} = {profile:UserId}''
     \<and> equalityExpression (objectPrototype mt mr mk) joinFieldMap [''user'', ''profile'']
         '' id = name ''
       = Inr ''{user:Id} = {user:Name}''
     \<and> equalityExpression (objectPrototype mt mr mk) joinFieldMap [''user'', ''profile'']
         '' id = 42 ''
       = Inr ''{user:Id} = 42''"
    using dp by (simp add: p_def)
qed

section \<open>The separator of WHERE predicates\<close>

text \<open>
  Claim C6. The text after the keyword \<^verbatim>\<open>WHERE\<close> (found in any letter case) is
  split at the exact text \<^verbatim>\<open>AND\<close>: it stays in one piece exactly when it does not
  hold \<^verbatim>\<open>AND\<close> in upper case, whatever else it holds (\<^verbatim>\<open>and\<close>, \<^verbatim>\<open>And\<close>).
  The instance after the theorem is a query in lower case: \<^verbatim>\<open>select\<close>,
  \<^verbatim>\<open>from\<close>, \<^verbatim>\<open>where\<close> and \<^verbatim>\<open>limit\<close> are recognised, \<^verbatim>\<open>and\<close> is not.
\<close>

theorem and_separator_exact_case:
  "match whereClause whereRegex = Some groups \<Longrightarrow> at groups 1 = Some body \<Longrightarrow>
   \<exists>pieces. smallerClauses whereClause = Inr pieces
     \<and> (pieces = [body]) = (\<not> sublist ''AND'' body)"
proof -
  assume m: "match whereClause whereRegex = Some groups" and g: "at groups 1 = Some body"
  have s: "smallerClauses whereClause = Inr (split body ''AND'')"
    using m g by (simp add: smallerClauses_def del: One_nat_def)
  have "(split body ''AND'' = [body]) = (\<not> sublist ''AND'' body)"
  proof
    assume "split body ''AND'' = [body]"
    then have "body \<in> set (split body ''AND'')" by simp
    then show "\<not> sublist ''AND'' body" by (rule split_pieces(1) [rotated]) simp
  next
    assume "\<not> sublist ''AND'' body"
    then show "split body ''AND'' = [body]" by (intro split_no_sep) simp_all
  qed
  with s show ?thesis by simp
qed

theorem and_separator_exact_case_witness:
  "smallerClauses ''where a = 1 and b = 2 And c = 3'' = Inr ['' a = 1 and b = 2 And c = 3'']
   \<and> \<not> sublist ''AND'' '' a = 1 and b = 2 And c = 3''
   \<and> smallerClauses ''where a = 1 AND b = 2'' = Inr ['' a = 1 '', '' b = 2'']
   \<and> (\<forall>proto. dumbdown proto userFieldMap
         ''select id from user where first_name = 'a' and last_name = 'b' limit 5''
       = Inr ''SELECT {user:Id}  FROM {user}  WHERE {user:FirstName__c} = 'a'andlast_name  limit 5'')"
proof -
  have m: "match ''where a = 1 and b = 2 And c = 3'' whereRegex
             = Some [''where a = 1 and b = 2 And c = 3'', '' a = 1 and b = 2 And c = 3'']"
    by code_simp
  have n: "\<not> sublist ''AND'' '' a = 1 and b = 2 And c = 3''"
    by code_simp
  from and_separator_exact_case [OF m, of "'' a = 1 and b = 2 And c = 3''"] n
  have "smallerClauses ''where a = 1 and b = 2 And c = 3'' = Inr ['' a = 1 and b = 2 And c = 3'']"
    by auto
  moreover have "smallerClauses ''where a = 1 AND b = 2'' = Inr ['' a = 1 '', '' b = 2'']"
    by code_simp
  moreover have "dumbdown proto userFieldMap
         ''select id from user where first_name = 'a' and last_name = 'b' limit 5''
       = Inr ''SELECT {user:Id}  FROM {user}  WHERE {user:FirstName__c} = 'a'andlast_name  limit 5''"
    for proto
    by code_simp
  ultimately show ?thesis using n by simp
qed

section \<open>The list splitter\<close>

text \<open>
  Claim C7 says that an empty input gives an empty sequence. It does not: the text
  between \<^verbatim>\<open>SELECT\<close> and \<^verbatim>\<open>FROM\<close> below is white space only, empty once
  stripped, and the result is the sequence of one empty string; an empty query string
  matches no regular expression and the call throws.
\<close>

theorem splitFields_empty_counterexample:
  "split (stripWhitespace []) '','' = [[]]
   \<and> splitFields ''SELECT  FROM user'' selectRegex 2 = Inr [[]]
   \<and> splitFields [] selectRegex 2 = Inl TypeError"
  by code_simp

text \<open>
  Claim C7 as amended. When \<^verbatim>\<open>splitFields\<close> returns, its result is never the empty
  sequence: the pieces, joined with commas, are the captured fragment with all white
  space removed, no piece holds a comma or a white space character, and a fragment that
  is empty once stripped gives one piece, the empty string. On the empty query string
  \<^verbatim>\<open>splitFields\<close> throws a \<^verbatim>\<open>TypeError\<close>.
\<close>

theorem splitFields_pieces:
  "(splitFields queryString re returnIdx = Inr pieces \<longrightarrow>
      (\<exists>groups g. match queryString re = Some groups \<and> at groups returnIdx = Some g
         \<and> pieces \<noteq> [] \<and> join pieces '','' = stripWhitespace g
         \<and> (\<forall>p\<in>set pieces. CHR '','' \<notin> set p \<and> (\<forall>c\<in>set p. \<not> isWhiteSpace c))
         \<and> (stripWhitespace g = [] \<longrightarrow> pieces = [[]])))
   \<and> splitFields [] re returnIdx = Inl TypeError"
proof (intro conjI impI)
  assume "splitFields queryString re returnIdx = Inr pieces"
  from splitFields_Inr [OF this] obtain groups g
    where m: "match queryString re = Some groups" and g: "at groups returnIdx = Some g"
      and p: "pieces = split (stripWhitespace g) '',''" by blast
  have ne: "pieces \<noteq> []" unfolding p by (rule split_nonempty) simp
  have j: "join pieces '','' = stripWhitespace g" unfolding p by (rule split_join) simp
  have each: "\<forall>p\<in>set pieces. CHR '','' \<notin> set p \<and> (\<forall>c\<in>set p. \<not> isWhiteSpace c)"
    unfolding p using split_comma_pieces by blast
  have e: "stripWhitespace g = [] \<longrightarrow> pieces = [[]]" by (simp add: p split_def)
  from m g ne j each e
  show "\<exists>groups g. match queryString re = Some groups \<and> at groups returnIdx = Some g
         \<and> pieces \<noteq> [] \<and> join pieces '','' = stripWhitespace g
         \<and> (\<forall>p\<in>set pieces. CHR '','' \<notin> set p \<and> (\<forall>c\<in>set p. \<not> isWhiteSpace c))
         \<and> (stripWhitespace g = [] \<longrightarrow> pieces = [[]])"
    by blast
next
  show "splitFields [] re returnIdx = Inl TypeError"
    by (simp add: splitFields_def match_empty)
qed

theorem splitFields_pieces_witness:
  "splitFields ''SELECT id , full_name FROM user'' selectRegex 2 = Inr [''id'', ''full_name'']
   \<and> (\<exists>groups g. match ''SELECT id , full_name FROM user'' selectRegex = Some groups
         \<and> at groups 2 = Some g
         \<and> join [''id'', ''full_name''] '','' = stripWhitespace g)
   \<and> splitFields [] selectRegex 2 = Inl TypeError"
proof -
  have h: "splitFields ''SELECT id , full_name FROM user'' selectRegex 2
             = Inr [''id'', ''full_name'']"
    by code_simp
  from splitFields_pieces [THEN conjunct1, rule_format, OF h]
    splitFields_pieces [THEN conjunct2, of selectRegex 2] h
  show ?thesis by blast
qed

section \<open>The FROM clause\<close>

text \<open>
  Claim C8 says that the tables a FROM clause lists are all wrapped as they stand. They
  are not when a name holds a qualifier keyword: the list is cut there. Below the second
  table, \<^verbatim>\<open>whereabouts\<close>, is lost and an empty name is wrapped in its place.
\<close>

theorem wrapFrom_keyword_counterexample:
  "wrapFrom ''SELECT id FROM orders, whereabouts'' = Inr '' FROM {orders}, {} ''
   \<and> wrapFrom ''SELECT id FROM orders, whereabouts'' \<noteq> Inr '' FROM {orders}, {whereabouts} ''"
  by code_simp

text \<open>
  Claim C8 as amended. Let the query be \<open>pre @ kw @ frag @ rest\<close> where \<open>kw\<close> is
  \<^verbatim>\<open>FROM\<close> in any letter case and the first such text of the query, the fragment
  \<open>frag\<close> is not empty and holds no line terminator, \<open>rest\<close> is empty or begins with
  \<^verbatim>\<open>WHERE\<close>, \<^verbatim>\<open>GROUP BY\<close>, \<^verbatim>\<open>ORDER BY\<close> or \<^verbatim>\<open>LIMIT\<close> in any letter case, and
  none of these begins inside \<open>frag\<close> after its first character. Let \<open>frag\<close> list the
  tables \<open>t1, t2, ...\<close>: without its white space it is the names, none of which holds a
  comma, joined with commas. Then \<^verbatim>\<open>wrapFrom\<close> returns
  \<^verbatim>\<open>" FROM {t1}, {t2}, ... "\<close>: every name wrapped in braces as it stands, in the
  order of the list, joined with a comma and a space. No alias is looked up:
  \<^verbatim>\<open>wrapFrom\<close> does not read the field map.
\<close>

theorem wrapFrom_tables:
  assumes "queryString = pre @ kw @ frag @ rest"
    and "matchesKeyword ''FROM'' kw" and "length kw = 4"
    and "\<forall>i<length pre. \<not> matchesKeyword ''FROM'' (drop i queryString)"
    and "frag \<noteq> []" and "\<forall>c\<in>set frag. \<not> isLineTerminator c"
    and "lookahead (Some qualifierKeywords) rest"
    and "\<forall>k. 0 < k \<and> k < length frag
           \<longrightarrow> \<not> lookahead (Some qualifierKeywords) (drop k (frag @ rest))"
    and "stripWhitespace frag = join tables '',''"
    and "tables \<noteq> []" and "\<forall>t\<in>set tables. CHR '','' \<notin> set t"
  shows "wrapFrom queryString
     = Inr ('' FROM '' @ join (map (\<lambda>t. ''{'' @ t @ ''}'') tables) '', '' @ '' '')"
proof -
  have "match queryString fromRegex = Some [kw @ frag, kw, frag]"
    using assms(1-8) by (rule match_from)
  then have "splitFields queryString fromRegex 2 = Inr (split (join tables '','') '','')"
    by (simp add: splitFields_def numeral_2_eq_2 assms(9))
  also have "split (join tables '','') '','' = tables"
    using assms(10,11) by (rule split_join_single)
  finally show ?thesis by (simp add: wrapFrom_def eachFrom_join)
qed

theorem wrapFrom_tables_witness:
  "''select id from user, profile where user.id = profile.user_id''
     = ''select id '' @ ''from'' @ '' user, profile '' @ ''where user.id = profile.user_id''
   \<and> matchesKeyword ''FROM'' ''from''
   \<and> lookahead (Some qualifierKeywords) ''where user.id = profile.user_id''
   \<and> stripWhitespace '' user, profile '' = join [''user'', ''profile''] '',''
   \<and> wrapFrom ''select id from user, profile where user.id = profile.user_id''
       = Inr '' FROM {user}, {profile} ''"
proof -
  have q: "''select id from user, profile where user.id = profile.user_id''
     = ''select id '' @ ''from'' @ '' user, profile '' @ ''where user.id = profile.user_id''"
    by simp
  have kw: "matchesKeyword ''FROM'' ''from''" and len: "length ''from'' = 4"
    by code_simp+
  have "list_all
          (\<lambda>i. \<not> matchesKeyword ''FROM''
                  (drop i ''select id from user, profile where user.id = profile.user_id''))
          [0..<length ''select id '']"
    by code_simp
  then have first: "\<forall>i<length ''select id ''. \<not> matchesKeyword ''FROM''
                  (drop i ''select id from user, profile where user.id = profile.user_id'')"
    by (simp only: all_less_list_all)
  have ne: "'' user, profile '' \<noteq> []" by simp
  have lt: "\<forall>c\<in>set '' user, profile ''. \<not> isLineTerminator c" by code_simp
  have la: "lookahead (Some qualifierKeywords) ''where user.id = profile.user_id''"
    by code_simp
  have "list_all
          (\<lambda>k. \<not> lookahead (Some qualifierKeywords)
                  (drop k ('' user, profile '' @ ''where user.id = profile.user_id'')))
          [1..<length '' user, profile '']"
    by code_simp
  then have inside: "\<forall>k. 0 < k \<and> k < length '' user, profile ''
           \<longrightarrow> \<not> lookahead (Some qualifierKeywords)
                 (drop k ('' user, profile '' @ ''where user.id = profile.user_id''))"
    by (simp only: all_between_list_all)
  have names: "stripWhitespace '' user, profile '' = join [''user'', ''profile''] '',''"
    by code_simp
  have t: "[''user'', ''profile''] \<noteq> []"
    and c: "\<forall>t\<in>set [''user'', ''profile'']. CHR '','' \<notin> set t"
    by simp_all
  have j: "'' FROM '' @ join (map (\<lambda>t. ''{'' @ t @ ''}'') [''user'', ''profile'']) '', '' @ '' ''
             = '' FROM {user}, {profile} ''"
    by code_simp
  have w: "wrapFrom ''select id from user, profile where user.id = profile.user_id''
             = Inr '' FROM {user}, {profile} ''"
    using wrapFrom_tables [OF q kw len first ne lt la inside names t c] by (simp only: j)
  from q kw la names w show ?thesis by (intro conjI)
qed

section \<open>Every occurrence of AND separates\<close>

text \<open>
  Claim C9. The pieces of a WHERE clause are the texts between the occurrences of
  \<^verbatim>\<open>AND\<close>: joined with \<^verbatim>\<open>AND\<close> they give the clause body back, and no piece holds
  \<^verbatim>\<open>AND\<close>, so every occurrence is a cut, also one inside a quoted literal
  (\<^verbatim>\<open>'SANDY'\<close>) or inside an identifier (\<^verbatim>\<open>BRAND_ID\<close>). The last conjunct is what
  \<^verbatim>\<open>dumbdown\<close> makes of the cut literal, for a field map of object literals.
\<close>

theorem and_separator_anywhere:
  "(match whereClause whereRegex = Some groups \<and> at groups 1 = Some body
      \<longrightarrow> (\<exists>pieces. smallerClauses whereClause = Inr pieces
             \<and> join pieces ''AND'' = body \<and> (\<forall>p\<in>set pieces. \<not> sublist ''AND'' p)))
   \<and> smallerClauses ''WHERE first_name = 'SANDY' '' = Inr ['' first_name = 'S'', ''Y' '']
   \<and> smallerClauses ''WHERE BRAND_ID = 5'' = Inr ['' BR'', ''_ID = 5'']
   \<and> dumbdown (objectPrototype mt mr mk) userFieldMap
        ''SELECT id FROM user WHERE first_name = 'SANDY' ''
       = Inr ''SELECT {user:Id}  FROM {user}  WHERE {user:FirstName__c} = 'S AND {user:undefined}   ''"
proof (intro conjI impI)
  assume "match whereClause whereRegex = Some groups \<and> at groups 1 = Some body"
  then have s: "smallerClauses whereClause = Inr (split body ''AND'')"
    by (simp add: smallerClauses_def del: One_nat_def)
  have "join (split body ''AND'') ''AND'' = body" by (rule split_join) simp
  moreover have "\<forall>p\<in>set (split body ''AND''). \<not> sublist ''AND'' p"
    using split_pieces(1) [of "''AND''" _ body] by simp
  ultimately show "\<exists>pieces. smallerClauses whereClause = Inr pieces
             \<and> join pieces ''AND'' = body \<and> (\<forall>p\<in>set pieces. \<not> sublist ''AND'' p)"
    using s by simp
qed code_simp+

theorem and_separator_anywhere_witness:
  "\<exists>pieces. smallerClauses ''WHERE first_name = 'SANDY' '' = Inr pieces
     \<and> join pieces ''AND'' = '' first_name = 'SANDY' ''
     \<and> list_all (\<lambda>p. \<not> sublist ''AND'' p) pieces"
proof -
  have m: "match ''WHERE first_name = 'SANDY' '' whereRegex
             = Some [''WHERE first_name = 'SANDY' '', '' first_name = 'SANDY' '']
           \<and> at [''WHERE first_name = 'SANDY' '', '' first_name = 'SANDY' ''] 1
             = Some '' first_name = 'SANDY' ''"
    by code_simp
  from and_separator_anywhere [THEN conjunct1, rule_format, OF m]
  show ?thesis by (simp add: list_all_iff)
qed

section \<open>Clause boundaries are raw substrings\<close>

text \<open>
  Claim C10. The field list after \<^verbatim>\<open>SELECT\<close> and the table list after \<^verbatim>\<open>FROM\<close>
  are the text \<open>d\<close> captured by the lazy dots: it is not empty, it is followed at once by
  a text on which the lookahead holds (a keyword of the lookahead in any letter case, or
  the end of the input for \<^verbatim>\<open>FROM\<close>), and the lookahead holds nowhere inside it
  after its first character. Nothing asks for a word boundary: the table
  \<^verbatim>\<open>user_limits\<close> is cut before \<^verbatim>\<open>limits\<close>, the table \<^verbatim>\<open>nowhere_land\<close> before
  \<^verbatim>\<open>where\<close> and the field list \<^verbatim>\<open>id, from_date\<close> before \<^verbatim>\<open>from_date\<close>.
\<close>

theorem clause_boundary_is_raw_substring:
  "((re = selectRegex \<or> re = fromRegex) \<and> match queryString re = Some groups
      \<and> at groups 2 = Some d
    \<longrightarrow> (\<exists>pre kw rest. queryString = pre @ kw @ d @ rest \<and> d \<noteq> []
           \<and> lookahead (ahead re) rest
           \<and> (\<forall>k. 0 < k \<and> k < length d \<longrightarrow> \<not> lookahead (ahead re) (drop k (d @ rest)))))
   \<and> splitFields ''SELECT id FROM user_limits'' fromRegex 2 = Inr [''user_'']
   \<and> wrapFrom ''SELECT id FROM user_limits'' = Inr '' FROM {user_} ''
   \<and> splitFields ''SELECT id, from_date FROM bookings'' selectRegex 2 = Inr [''id'', []]
   \<and> splitFields ''SELECT id FROM nowhere_land'' fromRegex 2 = Inr [''no'']"
proof (intro conjI impI)
  assume a: "(re = selectRegex \<or> re = fromRegex) \<and> match queryString re = Some groups
      \<and> at groups 2 = Some d"
  then have lz: "lazy re" and cap: "leadCaptures re"
    by (auto simp: selectRegex_def fromRegex_def)
  from a obtain k d' where s: "search re queryString = Some (k, d')"
    and g: "groups = [k @ d', k, d']"
    using cap by (auto simp: match_def split: option.splits)
  from a g have d: "d' = d" by (simp add: numeral_2_eq_2)
  from search_Some [OF s] obtain pre post
    where q: "queryString = pre @ k @ post" and "dots re post = Some d" unfolding d by blast
  with lz have "lazyDots (ahead re) [] post = Some d" by (simp add: dots_def)
  from lazyDots_first [OF this] obtain e where e: "d = e" "e \<noteq> []" "prefix e post"
    "lookahead (ahead re) (drop (length e) post)"
    "\<forall>k. 0 < k \<and> k < length e \<longrightarrow> \<not> lookahead (ahead re) (drop k post)" by auto
  from e(1,3) obtain rest where r: "post = d @ rest" by (auto simp: prefix_def)
  with e q have "queryString = pre @ k @ d @ rest \<and> d \<noteq> [] \<and> lookahead (ahead re) rest
           \<and> (\<forall>k. 0 < k \<and> k < length d \<longrightarrow> \<not> lookahead (ahead re) (drop k (d @ rest)))"
    by simp
  then show "\<exists>pre kw rest. queryString = pre @ kw @ d @ rest \<and> d \<noteq> []
           \<and> lookahead (ahead re) rest
           \<and> (\<forall>k. 0 < k \<and> k < length d \<longrightarrow> \<not> lookahead (ahead re) (drop k (d @ rest)))"
    by blast
qed code_simp+

theorem clause_boundary_is_raw_substring_witness:
  "\<exists>pre kw rest. ''SELECT id FROM user_limits'' = pre @ kw @ '' user_'' @ rest
     \<and> lookahead (ahead fromRegex) rest"
proof -
  have m: "(fromRegex = selectRegex \<or> fromRegex = fromRegex)
           \<and> match ''SELECT id FROM user_limits'' fromRegex
               = Some [''FROM user_'', ''FROM'', '' user_'']
           \<and> at [''FROM user_'', ''FROM'', '' user_''] 2 = Some '' user_''"
    by code_simp
  from clause_boundary_is_raw_substring [THEN conjunct1, rule_format, OF m]
  show ?thesis by blast
qed

end
